theory Spec2Isabelle
  imports Main "HOL-Library.AList"
begin

section \<open>The process-graph builder of the openEO JavaScript client\<close>

text \<open>
  This theory embeds the class \<open>Builder\<close> (the file that requires \<open>./node\<close>,
  \<open>./parameter\<close> and \<open>./formula\<close>) and states the properties of its methods
  \<open>constructor\<close>, \<open>createCallbackParameter\<close>, \<open>getParentCallbackParameters\<close>,
  \<open>addParameter\<close>, \<open>spec\<close>, \<open>process\<close>, \<open>toJSON\<close> and \<open>generateId\<close>.

  Conventions of the embedding:
  \<^item> a JavaScript value is a \<open>jsval\<close>; a plain object is the association list of its own
    properties in insertion order, and a property that is absent reads as \<open>JUndefined\<close>
    (JavaScript enumerates integer-like keys first; no property below depends on the order);
  \<^item> numbers inside values are payload only and are integers here; the numbers that the
    builder itself computes (the id counters) are natural numbers;
  \<^item> the dictionaries \<open>idCounter\<close> and \<open>callbackParameterCache\<close> are maps of their own
    properties. A plain object also inherits the members of \<open>Object.prototype\<close> (such as
    \<open>constructor\<close> or \<open>toString\<close>): the read of \<open>callbackParameterCache\<close> finds them,
    and the model has that branch; their names all have more than six characters, so
    \<open>idCounter\<close>, which is read at stems of at most six characters, never finds one;
  \<^item> strings are lists of 8-bit characters, which is what \<open>substr\<close> counts on the ASCII
    names the process catalogs use;
  \<^item> \<open>console.warn\<close> is a list of messages, returned or threaded explicitly.
\<close>

subsection \<open>Values\<close>

datatype jsval =
    JUndefined
  | JNull
  | JBool bool
  | JNum int
  | JStr string
  | JArr "jsval list"
  | JObj "(string \<times> jsval) list"
  | JMethod string   \<comment> \<open>the function the constructor installs for the catalog entry of that id\<close>
  | JNative string   \<comment> \<open>a field or method every Builder instance has, by its name\<close>

datatype error =
    InvalidProcesses   \<comment> \<open>\<open>Error("Processes are invalid; must be array or object according to API.")\<close>\<close>
  | TypeError          \<comment> \<open>a property read on \<open>null\<close> or \<open>undefined\<close>\<close>

text \<open>A catalog entry: its \<open>id\<close> and the rest of the descriptor.\<close>

record process_entry =
  entry_id :: string
  entry_fields :: "(string \<times> jsval) list"

text \<open>
  A node of the graph (class \<open>BuilderNode\<close>): the fields \<open>id\<close>, \<open>spec\<close>, \<open>arguments\<close>,
  \<open>_description\<close> and \<open>result\<close>.
\<close>

record node =
  node_id :: string
  node_process :: string
  node_spec :: "process_entry option"
  node_arguments :: jsval
  node_description :: "string option"
  node_result :: bool

text \<open>
  A callback parameter (class \<open>Parameter\<close>). Objects of this class are compared by
  reference, so each carries the serial number of its allocation.
\<close>

record parameter =
  param_ident :: nat
  param_name :: string
  param_builder :: nat

text \<open>
  The fields of a Builder instance. \<open>props\<close> holds every property assigned to the
  instance besides the seven fixed fields: \<open>id\<close>, \<open>parameters\<close>, the other metadata
  and the per-process methods.
\<close>

record builder =
  parent :: "nat option"
  parentNode :: "node option"
  parentParameter :: "string option"
  processes :: "process_entry list"
  nodes :: "(string \<times> node) list"
  idCounter :: "string \<rightharpoonup> nat"
  callbackParameterCache :: "string \<rightharpoonup> parameter"
  props :: "string \<rightharpoonup> jsval"

subsection \<open>generateId\<close>

text \<open>\<open>String.prototype.replace\<close> with a string pattern replaces the first occurrence only.\<close>

fun replace_first :: "char \<Rightarrow> string \<Rightarrow> string \<Rightarrow> string" where
  "replace_first p r [] = []"
| "replace_first p r (c # cs) = (if c = p then r @ cs else c # replace_first p r cs)"

definition digit_char :: "nat \<Rightarrow> char" where
  "digit_char d = ''0123456789'' ! (d mod 10)"

text \<open>The decimal numeral of a counter, as string concatenation with a number gives it.\<close>

fun number_to_string :: "nat \<Rightarrow> string" where
  "number_to_string n =
     (if n < 10 then [digit_char n] else number_to_string (n div 10) @ [digit_char n])"

declare number_to_string.simps [simp del]

definition next_counter :: "nat option \<Rightarrow> nat" where
  "next_counter c = (case c of None \<Rightarrow> 1 | Some k \<Rightarrow> if k = 0 then 1 else k + 1)"

definition generateId :: "string \<Rightarrow> builder \<Rightarrow> string \<times> builder" where
  "generateId name0 b =
     (let name = take 6 (replace_first CHR ''_'' [] name0);
          c = next_counter (idCounter b name)
      in (name @ number_to_string c, b\<lparr>idCounter := (idCounter b)(name \<mapsto> c)\<rparr>))"

subsection \<open>Members of an instance\<close>

text \<open>
  The seven fields the constructor always sets, the methods of the class, and the members
  every object inherits. \<open>this[k]\<close> finds an own property first and the inherited ones after.
\<close>

definition own_fields :: "string list" where
  "own_fields = [''parent'', ''parentNode'', ''parentParameter'', ''processes'', ''nodes'',
     ''idCounter'', ''callbackParameterCache'']"

definition prototype_members :: "string list" where
  "prototype_members = [''constructor'', ''setParent'', ''createCallbackParameter'',
     ''getParentCallbackParameters'', ''addParameter'', ''spec'', ''math'', ''process'',
     ''toJSON'', ''generateId'',
     ''__defineGetter__'', ''__defineSetter__'', ''hasOwnProperty'', ''__lookupGetter__'',
     ''__lookupSetter__'', ''isPrototypeOf'', ''propertyIsEnumerable'', ''toString'',
     ''valueOf'', ''__proto__'', ''toLocaleString'']"

definition this_get :: "builder \<Rightarrow> string \<Rightarrow> jsval" where
  "this_get b k =
     (if k \<in> set own_fields then JNative k
      else case props b k of
             Some v \<Rightarrow> v
           | None \<Rightarrow> if k \<in> set prototype_members then JNative k else JUndefined)"

definition this_set :: "string \<Rightarrow> jsval \<Rightarrow> builder \<Rightarrow> builder" where
  "this_set k v b = b\<lparr>props := (props b)(k \<mapsto> v)\<rparr>"

text \<open>\<open>typeof v === 'undefined'\<close>\<close>

definition is_undefined :: "jsval \<Rightarrow> bool" where
  "is_undefined v = (v = JUndefined)"

subsection \<open>The constructor\<close>

text \<open>
  The argument \<open>processes\<close>: an array, a real object (by its own fields), or anything
  else (\<open>null\<close>, \<open>undefined\<close>, a primitive, a function). An element of the array is a
  process descriptor, whose \<open>id\<close> is a string, or it is \<open>null\<close> or \<open>undefined\<close>
  (\<open>None\<close>), on which reading \<open>process.id\<close> throws.
\<close>

datatype processes_arg =
    PArray "process_entry option list"
  | PObject "(string \<times> processes_arg) list"
  | POther

fun isArray :: "processes_arg \<Rightarrow> bool" where
  "isArray (PArray es) = True"
| "isArray _ = False"

fun isObject :: "processes_arg \<Rightarrow> bool" where
  "isObject (PObject fs) = True"
| "isObject _ = False"

fun field :: "processes_arg \<Rightarrow> string \<Rightarrow> processes_arg" where
  "field (PObject fs) k = (case map_of fs k of Some v \<Rightarrow> v | None \<Rightarrow> POther)"
| "field _ k = POther"

fun elements :: "processes_arg \<Rightarrow> process_entry option list" where
  "elements (PArray es) = es"
| "elements _ = []"

text \<open>The descriptors among the elements of an array.\<close>

fun descriptors :: "process_entry option list \<Rightarrow> process_entry list" where
  "descriptors [] = []"
| "descriptors (None # es) = descriptors es"
| "descriptors (Some e # es) = e # descriptors es"

definition apostrophe :: char where
  "apostrophe = CHR 0x27"

definition cannot_create :: "string \<Rightarrow> string" where
  "cannot_create pid =
     ''Can'' @ [apostrophe] @ ''t create function for process '' @ [apostrophe] @ pid
       @ [apostrophe] @ ''. Already exists in Builder class.''"

text \<open>One round of the loop over \<open>this.processes\<close>; the second component is the console.\<close>

definition install_method :: "process_entry \<Rightarrow> builder \<times> string list \<Rightarrow> builder \<times> string list" where
  "install_method e st =
     (case st of (b, out) \<Rightarrow>
        if is_undefined (this_get b (entry_id e))
        then (this_set (entry_id e) (JMethod (entry_id e)) b, out)
        else (b, out @ [cannot_create (entry_id e)]))"

text \<open>
  The loop \<open>for (let process of this.processes)\<close>: it throws a TypeError at the first
  element that is \<open>null\<close> or \<open>undefined\<close>.
\<close>

fun for_each_process ::
  "process_entry option list \<Rightarrow> builder \<times> string list \<Rightarrow> error + builder \<times> string list" where
  "for_each_process [] st = Inr st"
| "for_each_process (None # es) st = Inl TypeError"
| "for_each_process (Some e # es) st = for_each_process es (install_method e st)"

text \<open>The rounds of the loop over descriptors, which cannot throw.\<close>

definition install_methods :: "process_entry list \<Rightarrow> builder \<times> string list \<Rightarrow> builder \<times> string list" where
  "install_methods es st = fold install_method es st"

text \<open>
  The assignments before the loop. The constructor returns no builder when an element of
  the array is \<open>null\<close> or \<open>undefined\<close>, so the field \<open>processes\<close> of a builder holds
  the descriptors.
\<close>

definition init_builder :: "process_entry list \<Rightarrow> nat option \<Rightarrow> jsval \<Rightarrow> builder" where
  "init_builder es par idv =
     \<lparr>parent = par, parentNode = None, parentParameter = None, processes = es,
      nodes = [], idCounter = Map.empty, callbackParameterCache = Map.empty,
      props = [''id'' \<mapsto> idv]\<rparr>"

definition Builder_new :: "processes_arg \<Rightarrow> nat option \<Rightarrow> jsval \<Rightarrow> error + builder \<times> string list" where
  "Builder_new procs par idv =
     (if isArray procs
      then for_each_process (elements procs)
             (init_builder (descriptors (elements procs)) par idv, [])
      else if isObject procs \<and> isArray (field procs ''processes'')
      then for_each_process (elements (field procs ''processes''))
             (init_builder (descriptors (elements (field procs ''processes''))) par idv, [])
      else Inl InvalidProcesses)"

definition setParent :: "node option \<Rightarrow> string option \<Rightarrow> builder \<Rightarrow> builder" where
  "setParent n parameterName b = b\<lparr>parentNode := n, parentParameter := parameterName\<rparr>"

subsection \<open>spec, process, toJSON\<close>

definition spec :: "builder \<Rightarrow> string \<Rightarrow> process_entry option" where
  "spec b pid = find (\<lambda>p. entry_id p = pid) (processes b)"

definition unknown_process :: "string \<Rightarrow> string" where
  "unknown_process pid = ''Unknown process: '' @ pid"

text \<open>
  Modelled from the spec: the constructor of \<open>BuilderNode\<close> (\<open>./node\<close>), which is not
  among the sources. Following the description of \<open>call\<close>, it looks the operation up in
  the catalog, records a warning and proceeds when it is absent, allocates the id with
  \<open>generateId\<close> and keeps the arguments. The normalisation of the arguments is not
  modelled: the arguments are stored as they are passed.
\<close>

definition BuilderNode_new ::
  "builder \<Rightarrow> string \<Rightarrow> jsval \<Rightarrow> string option \<Rightarrow> node \<times> builder \<times> string list" where
  "BuilderNode_new b processId args description =
     (let sp = spec b processId;
          out = (if sp = None then [unknown_process processId] else []);
          (nid, b') = generateId processId b
      in (\<lparr>node_id = nid, node_process = processId, node_spec = sp, node_arguments = args,
           node_description = description, node_result = False\<rparr>, b', out))"

definition process ::
  "string \<Rightarrow> jsval \<Rightarrow> string option \<Rightarrow> builder \<Rightarrow> node \<times> builder \<times> string list" where
  "process processId args description b =
     (case BuilderNode_new b processId args description of
        (n, b', out) \<Rightarrow> (n, b'\<lparr>nodes := AList.update (node_id n) n (nodes b')\<rparr>, out))"

text \<open>
  Calling the member \<open>k\<close> of the instance as a function with the argument list \<open>args\<close>.
  Only the functions the constructor installs are dispatched here; \<open>None\<close> stands for a
  member that is not one of them.
\<close>

definition call_member ::
  "string \<Rightarrow> jsval list \<Rightarrow> builder \<Rightarrow> (node \<times> builder \<times> string list) option" where
  "call_member k args b =
     (case this_get b k of
        JMethod pid \<Rightarrow> Some (process pid (JArr args) None b)
      | _ \<Rightarrow> None)"

definition PROCESS_META :: "string list" where
  "PROCESS_META = [''id'', ''summary'', ''description'', ''categories'', ''parameters'', ''returns'',
     ''deprecated'', ''experimental'', ''exceptions'', ''examples'', ''links'']"

text \<open>\<open>Utils.mapObjectValues\<close>: the same keys, each value mapped.\<close>

definition mapObjectValues :: "(string \<times> 'a) list \<Rightarrow> ('a \<Rightarrow> 'b) \<Rightarrow> (string \<times> 'b) list" where
  "mapObjectValues obj f = map (\<lambda>kv. (fst kv, f (snd kv))) obj"

definition copy_meta :: "builder \<Rightarrow> string \<Rightarrow> (string \<times> jsval) list \<Rightarrow> (string \<times> jsval) list" where
  "copy_meta b key obj =
     (if \<not> is_undefined (this_get b key) then AList.update key (this_get b key) obj else obj)"

text \<open>\<open>node.toJSON\<close> belongs to \<open>BuilderNode\<close>; it is the parameter \<open>ser\<close>.\<close>

definition toJSON :: "(node \<Rightarrow> jsval) \<Rightarrow> builder \<Rightarrow> (string \<times> jsval) list" where
  "toJSON ser b =
     fold (copy_meta b) PROCESS_META
       [(''process_graph'', JObj (mapObjectValues (nodes b) ser))]"

subsection \<open>The store: builders that share a root, parameters with identity\<close>

text \<open>
  A nested builder reaches the root through \<open>parent\<close> and changes it, so builders live in
  a store, addressed by numbers. \<open>next_ident\<close> numbers the Parameter objects as they are
  created; \<open>console\<close> collects what \<open>console.warn\<close> receives.
\<close>

record world =
  builders :: "nat \<Rightarrow> builder"
  next_ident :: nat
  console :: "string list"

definition update_builder :: "nat \<Rightarrow> (builder \<Rightarrow> builder) \<Rightarrow> world \<Rightarrow> world" where
  "update_builder a f w = w\<lparr>builders := (builders w)(a := f (builders w a))\<rparr>"

text \<open>
  Modelled from the spec: \<open>Parameter.create\<close> (\<open>./parameter\<close>), which is not among the
  sources. It makes a new Parameter object with the given name and a back-reference to the
  builder that created it.
\<close>

definition Parameter_create :: "nat \<Rightarrow> string \<Rightarrow> world \<Rightarrow> parameter \<times> world" where
  "Parameter_create this parameterName w =
     (\<lparr>param_ident = next_ident w, param_name = parameterName, param_builder = this\<rparr>,
      w\<lparr>next_ident := Suc (next_ident w)\<rparr>)"

text \<open>
  The cache is the plain object \<open>{}\<close>: a name that is not an own property of it is
  looked up in \<open>Object.prototype\<close>. These are the names found there; what is found
  is a function or an object, never a falsy value.
\<close>

definition object_prototype_members :: "string list" where
  "object_prototype_members = [''constructor'', ''__defineGetter__'', ''__defineSetter__'',
     ''hasOwnProperty'', ''__lookupGetter__'', ''__lookupSetter__'', ''isPrototypeOf'',
     ''propertyIsEnumerable'', ''toString'', ''valueOf'', ''__proto__'', ''toLocaleString'']"

text \<open>
  What \<open>createCallbackParameter\<close> returns: a Parameter object, or the member of
  \<open>Object.prototype\<close> of the given name.
\<close>

datatype callback_param = Param parameter | Inherited string

text \<open>
  \<open>p.name\<close> of a returned value. The inherited functions are named like their key,
  except \<open>constructor\<close>, which is the function \<open>Object\<close>; \<open>__proto__\<close> is the object
  \<open>Object.prototype\<close>, which has no property \<open>name\<close>.
\<close>

fun callback_name :: "callback_param \<Rightarrow> jsval" where
  "callback_name (Param p) = JStr (param_name p)"
| "callback_name (Inherited k) =
     (if k = ''constructor'' then JStr ''Object''
      else if k = ''__proto__'' then JUndefined
      else JStr k)"

definition createCallbackParameter :: "nat \<Rightarrow> string \<Rightarrow> world \<Rightarrow> callback_param \<times> world" where
  "createCallbackParameter this parameterName w =
     (case callbackParameterCache (builders w this) parameterName of
        Some p \<Rightarrow> (Param p, w)
      | None \<Rightarrow>
          if parameterName \<in> set object_prototype_members then (Inherited parameterName, w)
          else
          (case Parameter_create this parameterName w of
             (p, w') \<Rightarrow>
               (Param p, update_builder this
                     (\<lambda>b. b\<lparr>callbackParameterCache := (callbackParameterCache b)(parameterName \<mapsto> p)\<rparr>)
                     w')))"

text \<open>The \<open>map\<close> over the callback parameters, from left to right.\<close>

fun create_all :: "nat \<Rightarrow> string list \<Rightarrow> world \<Rightarrow> callback_param list \<times> world" where
  "create_all this [] w = ([], w)"
| "create_all this (n # ns) w =
     (case createCallbackParameter this n w of
        (p, w') \<Rightarrow> (case create_all this ns w' of (ps, w'') \<Rightarrow> (p # ps, w'')))"

text \<open>
  \<open>ProcessUtils.getCallbackParametersForProcess\<close> belongs to another package; it is the
  parameter \<open>lookup\<close>, which gives the names of the callback parameters of an argument of a
  process, or throws (\<open>Inl\<close> the message).
\<close>

type_synonym callback_lookup = "process_entry option \<Rightarrow> string \<Rightarrow> string + string list"

definition getParentCallbackParameters ::
  "callback_lookup \<Rightarrow> nat \<Rightarrow> world \<Rightarrow> callback_param list \<times> world" where
  "getParentCallbackParameters lookup this w =
     (case parentNode (builders w this) of
        None \<Rightarrow> ([], w)
      | Some pn \<Rightarrow>
          (case parentParameter (builders w this) of
             None \<Rightarrow> ([], w)
           | Some pp \<Rightarrow>
               if pp = [] then ([], w)
               else (case lookup (node_spec pn) pp of
                       Inl err \<Rightarrow> ([], w\<lparr>console := console w @ [err]\<rparr>)
                     | Inr names \<Rightarrow> create_all this names w)))"

subsection \<open>addParameter\<close>

text \<open>
  \<open>a === b\<close>. Arrays, objects and functions are equal only to themselves; the embedding
  does not track their identity, and a name is a string.
\<close>

fun strict_eq :: "jsval \<Rightarrow> jsval \<Rightarrow> bool" where
  "strict_eq JUndefined JUndefined = True"
| "strict_eq JNull JNull = True"
| "strict_eq (JBool a) (JBool b) = (a = b)"
| "strict_eq (JNum a) (JNum b) = (a = b)"
| "strict_eq (JStr a) (JStr b) = (a = b)"
| "strict_eq _ _ = False"

text \<open>The property \<open>name\<close> of an object given by its own properties.\<close>

definition name_of :: "(string \<times> jsval) list \<Rightarrow> jsval" where
  "name_of obj = (case map_of obj ''name'' of Some v \<Rightarrow> v | None \<Rightarrow> JUndefined)"

text \<open>
  \<open>p.name\<close> for an element of the array \<open>parameters\<close>: a TypeError on \<open>null\<close> and
  \<open>undefined\<close>, the property of an object, the empty name of the anonymous function
  that the constructor installs, and \<open>undefined\<close> on a primitive value or an array. (A
  built-in member is given no name; such a value is never put into the array.)
\<close>

fun element_name :: "jsval \<Rightarrow> error + jsval" where
  "element_name JUndefined = Inl TypeError"
| "element_name JNull = Inl TypeError"
| "element_name (JObj obj) = Inr (name_of obj)"
| "element_name (JMethod pid) = Inr (JStr [])"
| "element_name _ = Inr JUndefined"

text \<open>\<open>findIndex(p => p.name === n)\<close>; \<open>Inr None\<close> is the result \<open>-1\<close>.\<close>

fun findIndex_name :: "jsval \<Rightarrow> jsval list \<Rightarrow> error + nat option" where
  "findIndex_name n [] = Inr None"
| "findIndex_name n (p # ps) =
     (case element_name p of
        Inl e \<Rightarrow> Inl e
      | Inr m \<Rightarrow>
          if strict_eq m n then Inr (Some 0)
          else (case findIndex_name n ps of
                  Inl e \<Rightarrow> Inl e
                | Inr None \<Rightarrow> Inr None
                | Inr (Some i) \<Rightarrow> Inr (Some (Suc i))))"

text \<open>
  \<open>Object.assign(target, source)\<close>: each own property of the source is written into the
  target, in order. A target that is not a plain object keeps its value as an element of
  the array (properties added to an array or to a function are not represented).
\<close>

definition assign_obj :: "(string \<times> jsval) list \<Rightarrow> (string \<times> jsval) list \<Rightarrow> (string \<times> jsval) list" where
  "assign_obj target source = fold (\<lambda>kv. AList.update (fst kv) (snd kv)) source target"

fun Object_assign :: "jsval \<Rightarrow> (string \<times> jsval) list \<Rightarrow> jsval" where
  "Object_assign (JObj target) source = JObj (assign_obj target source)"
| "Object_assign v source = v"

text \<open>
  The loop \<open>while (builder.parent) builder = builder.parent\<close>. It does not end on a cyclic
  chain of parents; \<open>None\<close> is that outcome.
\<close>

partial_function (option) root_of :: "(nat \<Rightarrow> builder) \<Rightarrow> nat \<Rightarrow> nat option" where
  [code]: "root_of h a = (case parent (h a) of None \<Rightarrow> Some a | Some p \<Rightarrow> root_of h p)"

text \<open>\<open>Array.isArray(builder.parameters)\<close>, and the array when it is one.\<close>

definition parameters_of :: "builder \<Rightarrow> jsval list option" where
  "parameters_of b = (case this_get b ''parameters'' of JArr ps \<Rightarrow> Some ps | _ \<Rightarrow> None)"

definition declare_in :: "(string \<times> jsval) list \<Rightarrow> builder \<Rightarrow> error + builder" where
  "declare_in parameter b =
     (let ps = (case parameters_of b of Some ps \<Rightarrow> ps | None \<Rightarrow> [])
      in case findIndex_name (name_of parameter) ps of
           Inl e \<Rightarrow> Inl e
         | Inr (Some existing) \<Rightarrow>
             Inr (this_set ''parameters''
                    (JArr (ps[existing := Object_assign (ps ! existing) parameter])) b)
         | Inr None \<Rightarrow>
             Inr (this_set ''parameters'' (JArr (ps @ [JObj parameter])) b))"

text \<open>
  The parameter is an object, given by its own properties. The result is \<open>None\<close> when the
  walk to the root does not end, \<open>Some (Inl e)\<close> when an error is thrown, and the store
  after the call otherwise.
\<close>

definition addParameter ::
  "callback_lookup \<Rightarrow> nat \<Rightarrow> (string \<times> jsval) list \<Rightarrow> bool \<Rightarrow> world \<Rightarrow> (error + world) option" where
  "addParameter lookup this parameter root w =
     (case getParentCallbackParameters lookup this w of
        (callbackParams, w1) \<Rightarrow>
          if find (\<lambda>p. strict_eq (callback_name p) (name_of parameter)) callbackParams \<noteq> None
          then Some (Inr w1)
          else (case (if root then root_of (builders w1) this else Some this) of
                  None \<Rightarrow> None
                | Some r \<Rightarrow>
                    (case declare_in parameter (builders w1 r) of
                       Inl e \<Rightarrow> Some (Inl e)
                     | Inr b' \<Rightarrow> Some (Inr (update_builder r (\<lambda>_. b') w1)))))"

subsection \<open>Definitions used to state the properties\<close>

text \<open>A builder just made from an empty catalog, with no parent and no id.\<close>

definition fresh :: builder where
  "fresh = init_builder [] None JUndefined"

text \<open>A sequence of calls of \<open>process\<close> on one builder, with the nodes returned.\<close>

fun process_all :: "string list \<Rightarrow> builder \<Rightarrow> node list \<times> builder" where
  "process_all [] b = ([], b)"
| "process_all (pid # pids) b =
     (case process pid (JObj []) None b of
        (n, b', out) \<Rightarrow> (case process_all pids b' of (ns, b'') \<Rightarrow> (n # ns, b'')))"

text \<open>A catalog with the two operations \<open>a\<close> and \<open>a1\<close>.\<close>

definition catalog_a_a1 :: processes_arg where
  "catalog_a_a1 = PArray [Some \<lparr>entry_id = ''a'', entry_fields = []\<rparr>,
                          Some \<lparr>entry_id = ''a1'', entry_fields = []\<rparr>]"

text \<open>
  The array that the constructor keeps in \<open>this.processes\<close>: its elements, and the
  descriptors among them.
\<close>

definition array_of :: "processes_arg \<Rightarrow> process_entry option list" where
  "array_of procs =
     (if isArray procs then elements procs else elements (field procs ''processes''))"

definition catalog_of :: "processes_arg \<Rightarrow> process_entry list" where
  "catalog_of procs = descriptors (array_of procs)"

text \<open>The shapes of \<open>processes\<close> the constructor accepts.\<close>

definition valid_processes :: "processes_arg \<Rightarrow> bool" where
  "valid_processes procs =
     (isArray procs \<or> (isObject procs \<and> isArray (field procs ''processes'')))"

text \<open>A node serialisation for the examples: the node's id.\<close>

definition ser_id :: "node \<Rightarrow> jsval" where
  "ser_id n = JStr (node_id n)"

text \<open>A builder with one node and a summary.\<close>

definition example_builder :: builder where
  "example_builder =
     this_set ''summary'' (JStr ''A sum'')
       (fst (snd (process ''add'' (JArr [JNum 1, JNum 2]) None fresh)))"

text \<open>A catalog with an operation named like a method of the class, and a duplicate.\<close>

definition entry_add :: process_entry where
  "entry_add = \<lparr>entry_id = ''add'', entry_fields = []\<rparr>"

definition entry_process :: process_entry where
  "entry_process = \<lparr>entry_id = ''process'', entry_fields = []\<rparr>"

definition catalog_add_process :: processes_arg where
  "catalog_add_process = PArray [Some entry_add, Some entry_process, Some entry_add]"

text \<open>
  A store for the examples: every address holds a fresh root builder, except address 1,
  which holds a builder nested under the argument \<open>process\<close> of a node of the root at
  address 0.
\<close>

definition node_apply :: node where
  "node_apply = \<lparr>node_id = ''apply1'', node_process = ''apply'', node_spec = None,
                  node_arguments = JObj [], node_description = None, node_result = False\<rparr>"

definition nested :: builder where
  "nested = setParent (Some node_apply) (Some ''process'') (init_builder [] (Some 0) JUndefined)"

definition world0 :: world where
  "world0 = \<lparr>builders = (\<lambda>a. if a = 1 then nested else fresh), next_ident = 0, console = []\<rparr>"

text \<open>A lookup that gives the callback parameter \<open>x\<close>, and one that throws.\<close>

definition lookup_x :: callback_lookup where
  "lookup_x sp pp = Inr [''x'']"

definition lookup_fails :: callback_lookup where
  "lookup_fails sp pp = Inl ''Multiple schemas with different callback parameters found.''"



text \<open>
  The declared parameters of a builder: the array \<open>parameters\<close>, or nothing when the
  member is not an array; the entries of that name; and the own properties of a single
  entry.
\<close>

fun is_object :: "jsval \<Rightarrow> bool" where
  "is_object (JObj obj) = True"
| "is_object _ = False"

definition named :: "string \<Rightarrow> jsval \<Rightarrow> bool" where
  "named n p = (element_name p = Inr (JStr n))"

definition declared_list :: "builder \<Rightarrow> jsval list" where
  "declared_list b = (case parameters_of b of Some ps \<Rightarrow> ps | None \<Rightarrow> [])"

definition declared :: "string \<Rightarrow> builder \<Rightarrow> jsval list" where
  "declared n b = filter (named n) (declared_list b)"

definition fields_of :: "jsval list \<Rightarrow> (string \<rightharpoonup> jsval)" where
  "fields_of es = (case es of [JObj obj] \<Rightarrow> map_of obj | _ \<Rightarrow> Map.empty)"

text \<open>
  What \<open>addParameter\<close> maintains: the entries of the declared-parameter list are objects
  and no two of them have the same name.
\<close>

definition declarations_ok :: "builder \<Rightarrow> bool" where
  "declarations_ok b =
     (list_all is_object (declared_list b) \<and> distinct (map element_name (declared_list b)))"

text \<open>Two descriptors of the parameter \<open>x\<close>.\<close>

definition param_first :: "(string \<times> jsval) list" where
  "param_first = [(''name'', JStr ''x''), (''description'', JStr ''first''), (''optional'', JBool True)]"

definition param_second :: "(string \<times> jsval) list" where
  "param_second = [(''name'', JStr ''x''), (''description'', JStr ''second''), (''default'', JNum 1)]"

text \<open>
  The stem that \<open>generateId\<close> keeps of a name, decimal digits, and stems that do not end
  in a digit.
\<close>

definition stem_of :: "string \<Rightarrow> string" where
  "stem_of name = take 6 (replace_first CHR ''_'' [] name)"

definition is_digit :: "char \<Rightarrow> bool" where
  "is_digit c = (c \<in> set ''0123456789'')"

definition no_digit_end :: "string \<Rightarrow> bool" where
  "no_digit_end s = (s = [] \<or> \<not> is_digit (last s))"

text \<open>
  Every id of the set is a stem that does not end in a digit, followed by a counter that
  is at most the counter stored for that stem; and the stored counters are positive.
\<close>

definition ids_accounted :: "string set \<Rightarrow> builder \<Rightarrow> bool" where
  "ids_accounted G b =
     (\<forall>g \<in> G. \<exists>s c k. g = s @ number_to_string c \<and> no_digit_end s
                      \<and> idCounter b s = Some k \<and> c \<le> k)"

definition counters_positive :: "builder \<Rightarrow> bool" where
  "counters_positive b = (\<forall>s k. idCounter b s = Some k \<longrightarrow> 0 < k)"

text \<open>Every stored node is stored under its own id.\<close>

definition keyed_by_id :: "builder \<Rightarrow> bool" where
  "keyed_by_id b = (\<forall>kn \<in> set (nodes b). node_id (snd kn) = fst kn)"

text \<open>
  The builder that the constructor makes from the catalog with \<open>a\<close> and \<open>a1\<close>, and a
  sequence of twelve calls on it.
\<close>

definition builder_a_a1 :: builder where
  "builder_a_a1 =
     fst (install_methods (catalog_of catalog_a_a1)
            (init_builder (catalog_of catalog_a_a1) None JUndefined, []))"

definition twelve_calls :: "string list" where
  "twelve_calls = [''a'', ''a'', ''a'', ''a'', ''a'', ''a'', ''a'', ''a'', ''a'', ''a'', ''a'', ''a1'']"

section \<open>Properties\<close>

subsection \<open>generateId\<close>

lemma replace_first_at_most_one:
  "length (filter (\<lambda>c. c = p) s) \<le> 1 \<Longrightarrow> replace_first p [] s = filter (\<lambda>c. c \<noteq> p) s"
proof (induction s)
  case Nil
  then show ?case by simp
next
  case (Cons c cs)
  show ?case
  proof (cases "c = p")
    case True
    with Cons.prems have "filter (\<lambda>c. c = p) cs = []" by simp
    then have "\<forall>x \<in> set cs. x \<noteq> p" by (simp add: filter_empty_conv)
    then have "filter (\<lambda>c. c \<noteq> p) cs = cs" by simp
    with True show ?thesis by simp
  next
    case False
    with Cons show ?thesis by simp
  qed
qed

lemma number_to_string_1: "number_to_string (Suc 0) = ''1''"
  by (simp add: number_to_string.simps digit_char_def)

lemma number_to_string_2: "number_to_string (Suc (Suc 0)) = ''2''"
  by (simp add: number_to_string.simps digit_char_def)

text \<open>
  C1, as stated, fails: the stem is not lowercased, and the first id for
  \<open>reduce_dimension\<close> is \<open>reduce1\<close> (six characters of the stem), not \<open>reduc1\<close>.
\<close>

theorem generateId_counterexample:
  "fst (generateId ''reduce_dimension'' fresh) \<noteq> ''reduc1''
   \<and> fst (generateId ''NDVI'' fresh) \<noteq> ''ndvi1''"
  by (simp add: generateId_def fresh_def init_builder_def next_counter_def number_to_string_1)

text \<open>
  C1 (amended). For every stem with at most one underscore and every builder, generateId
  removes the underscore, keeps the case of the letters, truncates to at most 6
  characters, and appends the counter of the truncated stem, which is 1 on first use in
  the builder and one more than before afterwards; the counter is stored. In particular
  the first call for \<open>reduce_dimension\<close> returns \<open>reduce1\<close> and the next one \<open>reduce2\<close>.
\<close>

theorem generateId_truncates_and_counts:
  assumes "length (filter (\<lambda>c. c = CHR ''_'') stem) \<le> 1"
  shows "generateId stem b =
           (take 6 (filter (\<lambda>c. c \<noteq> CHR ''_'') stem)
              @ number_to_string (next_counter (idCounter b (take 6 (filter (\<lambda>c. c \<noteq> CHR ''_'') stem)))),
            b\<lparr>idCounter := (idCounter b)(take 6 (filter (\<lambda>c. c \<noteq> CHR ''_'') stem)
                 \<mapsto> next_counter (idCounter b (take 6 (filter (\<lambda>c. c \<noteq> CHR ''_'') stem))))\<rparr>)
         \<and> length (take 6 (filter (\<lambda>c. c \<noteq> CHR ''_'') stem)) \<le> 6
         \<and> next_counter None = 1
         \<and> (\<forall>k. 0 < k \<longrightarrow> next_counter (Some k) = k + 1)
         \<and> (idCounter b ''reduce'' = None \<longrightarrow>
              fst (generateId ''reduce_dimension'' b) = ''reduce1''
              \<and> fst (generateId ''reduce_dimension'' (snd (generateId ''reduce_dimension'' b))) = ''reduce2'')"
  using replace_first_at_most_one [OF assms]
  by (simp add: generateId_def next_counter_def number_to_string_1 number_to_string_2 Let_def)

theorem generateId_truncates_and_counts_witness:
  "length (filter (\<lambda>c. c = CHR ''_'') ''reduce_dimension'') \<le> 1
   \<and> generateId ''reduce_dimension'' fresh = (''reduce1'', fresh\<lparr>idCounter := [''reduce'' \<mapsto> 1]\<rparr>)"
  using generateId_truncates_and_counts [of "''reduce_dimension''" fresh]
  by (simp add: fresh_def init_builder_def next_counter_def number_to_string_1)

text \<open>Only the first underscore of a stem is removed.\<close>

lemma generateId_second_underscore_kept:
  "fst (generateId ''a_b_c'' fresh) = ''ab_c1''"
  by (simp add: generateId_def fresh_def init_builder_def next_counter_def number_to_string_1)

subsection \<open>process\<close>

lemma process_unfold:
  "process pid args d b =
     (\<lparr>node_id = take 6 (replace_first CHR ''_'' [] pid)
                  @ number_to_string (next_counter (idCounter b (take 6 (replace_first CHR ''_'' [] pid)))),
       node_process = pid, node_spec = spec b pid, node_arguments = args,
       node_description = d, node_result = False\<rparr>,
      b\<lparr>idCounter := (idCounter b)(take 6 (replace_first CHR ''_'' [] pid)
            \<mapsto> next_counter (idCounter b (take 6 (replace_first CHR ''_'' [] pid)))),
        nodes := AList.update
            (take 6 (replace_first CHR ''_'' [] pid)
               @ number_to_string (next_counter (idCounter b (take 6 (replace_first CHR ''_'' [] pid)))))
            \<lparr>node_id = take 6 (replace_first CHR ''_'' [] pid)
                  @ number_to_string (next_counter (idCounter b (take 6 (replace_first CHR ''_'' [] pid)))),
              node_process = pid, node_spec = spec b pid, node_arguments = args,
              node_description = d, node_result = False\<rparr>
            (nodes b)\<rparr>,
      if spec b pid = None then [unknown_process pid] else [])"
  by (simp add: process_def BuilderNode_new_def generateId_def Let_def)

lemma number_to_string_upto_11:
  "number_to_string 1 = ''1''" "number_to_string 2 = ''2''" "number_to_string 3 = ''3''"
  "number_to_string 4 = ''4''" "number_to_string 5 = ''5''" "number_to_string 6 = ''6''"
  "number_to_string 7 = ''7''" "number_to_string 8 = ''8''" "number_to_string 9 = ''9''"
  "number_to_string 10 = ''10''" "number_to_string 11 = ''11''"
  by (simp_all add: number_to_string.simps digit_char_def)

lemma next_counter_simps:
  "next_counter None = 1" "next_counter (Some 1) = 2"
  "next_counter (Some (numeral k)) = numeral k + 1"
  by (simp_all add: next_counter_def)

lemma builder_a_a1_eval:
  "builder_a_a1 =
     (init_builder [\<lparr>entry_id = ''a'', entry_fields = []\<rparr>,
                    \<lparr>entry_id = ''a1'', entry_fields = []\<rparr>] None JUndefined)
       \<lparr>props := [''id'' \<mapsto> JUndefined, ''a'' \<mapsto> JMethod ''a'', ''a1'' \<mapsto> JMethod ''a1'']\<rparr>"
  by (simp add: builder_a_a1_def catalog_of_def array_of_def catalog_a_a1_def install_methods_def
      install_method_def init_builder_def this_get_def this_set_def is_undefined_def
      own_fields_def prototype_members_def)

lemma Builder_new_a_a1:
  "Builder_new catalog_a_a1 None JUndefined = Inr (builder_a_a1, [])"
  unfolding builder_a_a1_eval
  by (simp add: Builder_new_def catalog_a_a1_def install_method_def
      init_builder_def this_get_def this_set_def is_undefined_def own_fields_def
      prototype_members_def)

text \<open>
  C2, at the failing input. On the builder made from the catalog with the operations \<open>a\<close>
  and \<open>a1\<close>, eleven calls of \<open>a\<close> and one call of \<open>a1\<close> give twelve nodes; the eleventh
  and the twelfth both have the id \<open>a11\<close>, so the ids are not pairwise distinct, and the
  node map keeps eleven nodes: the twelfth node has replaced the eleventh.
\<close>

theorem process_ids_collide:
  "Builder_new catalog_a_a1 None JUndefined = Inr (builder_a_a1, [])
   \<and> length (fst (process_all twelve_calls builder_a_a1)) = 12
   \<and> node_id (fst (process_all twelve_calls builder_a_a1) ! 10) = ''a11''
   \<and> node_process (fst (process_all twelve_calls builder_a_a1) ! 10) = ''a''
   \<and> node_id (fst (process_all twelve_calls builder_a_a1) ! 11) = ''a11''
   \<and> node_process (fst (process_all twelve_calls builder_a_a1) ! 11) = ''a1''
   \<and> \<not> distinct (map node_id (fst (process_all twelve_calls builder_a_a1)))
   \<and> length (nodes (snd (process_all twelve_calls builder_a_a1))) = 11
   \<and> map_of (nodes (snd (process_all twelve_calls builder_a_a1))) ''a11''
       = Some (fst (process_all twelve_calls builder_a_a1) ! 11)"
  by (simp add: Builder_new_a_a1 builder_a_a1_eval twelve_calls_def init_builder_def
      process_unfold spec_def next_counter_simps number_to_string_upto_11 del: One_nat_def)

lemma spec_absent: "pid \<notin> set (map entry_id (processes b)) \<Longrightarrow> spec b pid = None"
  by (auto simp: spec_def find_None_iff)

text \<open>
  C3. For every operation name that is absent from the catalog, \<open>process\<close> returns a
  result (it has no failing outcome): one warning is recorded, the node is constructed
  with that operation name, the given arguments and the id that \<open>generateId\<close> allocates,
  it is stored in the node map under its id, and it is the node returned.
\<close>

theorem process_unknown_operation:
  assumes "pid \<notin> set (map entry_id (processes b))"
  shows "snd (snd (process pid args d b)) = [unknown_process pid]
         \<and> node_process (fst (process pid args d b)) = pid
         \<and> node_arguments (fst (process pid args d b)) = args
         \<and> node_description (fst (process pid args d b)) = d
         \<and> node_id (fst (process pid args d b)) = fst (generateId pid b)
         \<and> map_of (nodes (fst (snd (process pid args d b)))) (node_id (fst (process pid args d b)))
             = Some (fst (process pid args d b))"
  using spec_absent [OF assms]
  by (simp add: process_unfold generateId_def Let_def update_conv')

theorem process_unknown_operation_witness:
  "''foo'' \<notin> set (map entry_id (processes fresh))
   \<and> snd (snd (process ''foo'' (JArr []) None fresh)) = [unknown_process ''foo'']
   \<and> node_id (fst (process ''foo'' (JArr []) None fresh)) = ''foo1''
   \<and> map_of (nodes (fst (snd (process ''foo'' (JArr []) None fresh)))) ''foo1''
         = Some (fst (process ''foo'' (JArr []) None fresh))"
proof -
  have h: "''foo'' \<notin> set (map entry_id (processes fresh))"
    by (simp add: fresh_def init_builder_def)
  have i: "fst (generateId ''foo'' fresh) = ''foo1''"
    by (simp add: fresh_def init_builder_def generateId_def next_counter_def number_to_string_1)
  from process_unknown_operation [OF h, of "JArr []" None] i h show ?thesis
    by auto
qed

subsection \<open>toJSON\<close>

lemma map_of_mapObjectValues:
  "map_of (mapObjectValues obj f) k = map_option f (map_of obj k)"
  by (induction obj) (simp_all add: mapObjectValues_def)

lemma map_of_fold_copy_meta:
  "map_of (fold (copy_meta b) ks obj) k =
     (if k \<in> set ks \<and> \<not> is_undefined (this_get b k) then Some (this_get b k) else map_of obj k)"
  by (induction ks arbitrary: obj) (simp_all add: copy_meta_def update_conv')

lemma process_graph_not_meta: "''process_graph'' \<notin> set PROCESS_META"
  by (simp add: PROCESS_META_def)

lemma meta_not_builtin:
  "\<forall>k \<in> set PROCESS_META. k \<notin> set own_fields \<and> k \<notin> set prototype_members"
  by (simp add: PROCESS_META_def own_fields_def prototype_members_def)

lemma meta_get:
  assumes "key \<in> set PROCESS_META"
  shows "this_get b key = (case props b key of Some v \<Rightarrow> v | None \<Rightarrow> JUndefined)"
proof -
  from assms meta_not_builtin have "key \<notin> set own_fields" "key \<notin> set prototype_members"
    by blast+
  then show ?thesis by (simp add: this_get_def split: option.split)
qed

text \<open>
  C4. For every builder, the object that \<open>toJSON\<close> returns has the field \<open>process_graph\<close>,
  an object that maps each stored node id to the serialisation of its node; besides
  \<open>process_graph\<close> it has exactly those of the eleven metadata fields whose value on the
  builder is not \<open>undefined\<close>, each with the builder's value. The value of a metadata field
  on the builder is the property assigned to the instance.
\<close>

theorem toJSON_fields:
  "map_of (toJSON ser b) ''process_graph'' = Some (JObj (mapObjectValues (nodes b) ser))
   \<and> (\<forall>nid. map_of (mapObjectValues (nodes b) ser) nid = map_option ser (map_of (nodes b) nid))
   \<and> (\<forall>key. key \<noteq> ''process_graph'' \<longrightarrow>
         map_of (toJSON ser b) key =
           (if key \<in> set PROCESS_META \<and> this_get b key \<noteq> JUndefined
            then Some (this_get b key) else None))
   \<and> (\<forall>key \<in> set PROCESS_META.
         this_get b key = (case props b key of Some v \<Rightarrow> v | None \<Rightarrow> JUndefined))"
proof -
  have 1: "map_of (toJSON ser b) ''process_graph'' = Some (JObj (mapObjectValues (nodes b) ser))"
    using process_graph_not_meta by (simp add: toJSON_def map_of_fold_copy_meta)
  have 2: "\<forall>nid. map_of (mapObjectValues (nodes b) ser) nid = map_option ser (map_of (nodes b) nid)"
    by (simp add: map_of_mapObjectValues)
  have 3: "\<forall>key. key \<noteq> ''process_graph'' \<longrightarrow>
         map_of (toJSON ser b) key =
           (if key \<in> set PROCESS_META \<and> this_get b key \<noteq> JUndefined
            then Some (this_get b key) else None)"
    by (simp add: toJSON_def map_of_fold_copy_meta is_undefined_def)
  have 4: "\<forall>key \<in> set PROCESS_META.
         this_get b key = (case props b key of Some v \<Rightarrow> v | None \<Rightarrow> JUndefined)"
    using meta_get by blast
  show ?thesis using 1 2 3 4 by (intro conjI)
qed

lemma example_builder_eval:
  "nodes example_builder = [(''add1'', \<lparr>node_id = ''add1'', node_process = ''add'', node_spec = None,
      node_arguments = JArr [JNum 1, JNum 2], node_description = None, node_result = False\<rparr>)]"
  "props example_builder = [''id'' \<mapsto> JUndefined, ''summary'' \<mapsto> JStr ''A sum'']"
  by (simp_all add: example_builder_def fresh_def init_builder_def this_set_def process_unfold
      spec_def next_counter_def number_to_string_1)

theorem toJSON_fields_witness:
  "''summary'' \<noteq> ''process_graph'' \<and> ''id'' \<noteq> ''process_graph'' 
   \<and> ''summary'' \<in> set PROCESS_META \<and> ''id'' \<in> set PROCESS_META
   \<and> map_of (toJSON ser_id example_builder) ''process_graph'' = Some (JObj [(''add1'', JStr ''add1'')])
   \<and> map_of (toJSON ser_id example_builder) ''summary'' = Some (JStr ''A sum'')
   \<and> map_of (toJSON ser_id example_builder) ''id'' = None"
proof -
  have m: "''summary'' \<in> set PROCESS_META" "''id'' \<in> set PROCESS_META"
    by (simp_all add: PROCESS_META_def)
  have g: "this_get example_builder ''summary'' = JStr ''A sum''"
     "this_get example_builder ''id'' = JUndefined"
    using toJSON_fields [of ser_id example_builder] m by (simp_all add: example_builder_eval)
  have n: "mapObjectValues (nodes example_builder) ser_id = [(''add1'', JStr ''add1'')]"
    by (simp add: example_builder_eval mapObjectValues_def ser_id_def)
  from toJSON_fields [of ser_id example_builder] m g n show ?thesis
    by simp
qed

subsection \<open>When the ids of a builder are pairwise distinct\<close>

lemma digit_char_is_digit: "is_digit (digit_char n)"
proof -
  have "n mod 10 < length ''0123456789''" by simp
  then have "''0123456789'' ! (n mod 10) \<in> set ''0123456789''" by (rule nth_mem)
  then show ?thesis by (simp only: is_digit_def digit_char_def)
qed

lemma digit_char_inj: "digit_char m = digit_char n \<Longrightarrow> m mod 10 = n mod 10"
proof -
  assume e: "digit_char m = digit_char n"
  have d: "distinct ''0123456789''" by simp
  have "m mod 10 < length ''0123456789''" "n mod 10 < length ''0123456789''" by simp_all
  with d e show ?thesis
    unfolding digit_char_def by (simp only: nth_eq_iff_index_eq)
qed

lemma number_to_string_digits:
  "number_to_string n \<noteq> [] \<and> (\<forall>c \<in> set (number_to_string n). is_digit c)"
proof (induction n rule: number_to_string.induct)
  case (1 n)
  show ?case
  proof (cases "n < 10")
    case True
    then show ?thesis by (simp add: number_to_string.simps [of n] digit_char_is_digit)
  next
    case False
    with 1 show ?thesis by (simp add: number_to_string.simps [of n] digit_char_is_digit)
  qed
qed

lemma number_to_string_length:
  "(n < 10 \<longrightarrow> length (number_to_string n) = 1) \<and> (\<not> n < 10 \<longrightarrow> 2 \<le> length (number_to_string n))"
proof (cases "n < 10")
  case True
  then show ?thesis by (simp add: number_to_string.simps [of n])
next
  case False
  from number_to_string_digits [of "n div 10"] have "1 \<le> length (number_to_string (n div 10))"
    by (cases "number_to_string (n div 10)") simp_all
  with False show ?thesis by (simp add: number_to_string.simps [of n])
qed

lemma number_to_string_inj:
  "number_to_string m = number_to_string n \<Longrightarrow> m = n"
proof (induction m arbitrary: n rule: number_to_string.induct)
  case (1 m)
  show ?case
  proof (cases "m < 10")
    case True
    with number_to_string_length [of m] "1.prems" number_to_string_length [of n]
    have n: "n < 10" by (cases "n < 10") simp_all
    with True "1.prems" have "digit_char m = digit_char n"
      by (simp add: number_to_string.simps [of m] number_to_string.simps [of n])
    from digit_char_inj [OF this] True n show ?thesis by simp
  next
    case False
    with number_to_string_length [of m] "1.prems" number_to_string_length [of n]
    have n: "\<not> n < 10" by (cases "n < 10") simp_all
    with False "1.prems" have e: "number_to_string (m div 10) = number_to_string (n div 10)"
      "digit_char m = digit_char n"
      by (simp_all add: number_to_string.simps [of m] number_to_string.simps [of n])
    from "1.IH" [OF False e(1)] have "m div 10 = n div 10" .
    moreover from digit_char_inj [OF e(2)] have "m mod 10 = n mod 10" .
    ultimately show ?thesis by (metis div_mult_mod_eq)
  qed
qed

lemma stem_suffix_unique:
  assumes eq: "s1 @ d1 = s2 @ d2"
    and s1: "no_digit_end s1" and s2: "no_digit_end s2"
    and d1: "d1 \<noteq> []" "\<forall>c \<in> set d1. is_digit c"
    and d2: "d2 \<noteq> []" "\<forall>c \<in> set d2. is_digit c"
  shows "s1 = s2 \<and> d1 = d2"
proof -
  from eq obtain u where u: "(s1 = s2 @ u \<and> u @ d1 = d2) \<or> (s1 @ u = s2 \<and> d1 = u @ d2)"
    by (auto simp: append_eq_append_conv2)
  have "u = []"
  proof (rule ccontr)
    assume ne: "u \<noteq> []"
    from u show False
    proof
      assume a: "s1 = s2 @ u \<and> u @ d1 = d2"
      with ne have "last s1 = last u" "s1 \<noteq> []" by simp_all
      moreover from a ne d2 have "is_digit (last u)" by auto
      ultimately show False using s1 by (simp add: no_digit_end_def)
    next
      assume a: "s1 @ u = s2 \<and> d1 = u @ d2"
      with ne have "last s2 = last u" "s2 \<noteq> []" by auto
      moreover from a ne d1 have "is_digit (last u)" by auto
      ultimately show False using s2 by (simp add: no_digit_end_def)
    qed
  qed
  with u show ?thesis by auto
qed

lemma id_unique:
  assumes "s1 @ number_to_string c1 = s2 @ number_to_string c2"
    and "no_digit_end s1" and "no_digit_end s2"
  shows "s1 = s2 \<and> c1 = c2"
proof -
  from stem_suffix_unique [OF assms] number_to_string_digits [of c1] number_to_string_digits [of c2]
  have "s1 = s2" "number_to_string c1 = number_to_string c2" by simp_all
  with number_to_string_inj show ?thesis by blast
qed

lemma process_parts:
  "node_id (fst (process pid args d b))
     = stem_of pid @ number_to_string (next_counter (idCounter b (stem_of pid)))"
  "idCounter (fst (snd (process pid args d b)))
     = (idCounter b)(stem_of pid \<mapsto> next_counter (idCounter b (stem_of pid)))"
  "nodes (fst (snd (process pid args d b)))
     = AList.update (node_id (fst (process pid args d b))) (fst (process pid args d b)) (nodes b)"
  by (simp_all add: process_unfold stem_of_def)

lemma next_counter_positive: "0 < next_counter c"
  by (simp add: next_counter_def split: option.split)

lemma next_counter_above: "0 < k \<Longrightarrow> next_counter (Some k) = Suc k"
  by (simp add: next_counter_def)

lemma process_new_id:
  assumes nd: "no_digit_end (stem_of pid)"
    and acc: "ids_accounted G b" and pos: "counters_positive b"
  shows "node_id (fst (process pid args d b)) \<notin> G
       \<and> ids_accounted (insert (node_id (fst (process pid args d b))) G)
           (fst (snd (process pid args d b)))
       \<and> counters_positive (fst (snd (process pid args d b)))"
proof -
  let ?s = "stem_of pid"
  let ?c = "next_counter (idCounter b ?s)"
  let ?b' = "fst (snd (process pid args d b))"
  have nid: "node_id (fst (process pid args d b)) = ?s @ number_to_string ?c"
    by (rule process_parts)
  have cnt: "idCounter ?b' = (idCounter b)(?s \<mapsto> ?c)" by (rule process_parts)
  have grow: "\<And>k. idCounter b ?s = Some k \<Longrightarrow> k < ?c"
    using pos by (simp add: counters_positive_def next_counter_above)
  have 1: "?s @ number_to_string ?c \<notin> G"
  proof
    assume "?s @ number_to_string ?c \<in> G"
    with acc obtain s c k where g: "?s @ number_to_string ?c = s @ number_to_string c"
      "no_digit_end s" "idCounter b s = Some k" "c \<le> k"
      unfolding ids_accounted_def by blast
    from id_unique [OF g(1) nd g(2)] have "s = ?s" "c = ?c" by auto
    with g(3,4) grow show False by fastforce
  qed
  have 2: "ids_accounted (insert (?s @ number_to_string ?c) G) ?b'"
    unfolding ids_accounted_def
  proof
    fix g assume "g \<in> insert (?s @ number_to_string ?c) G"
    then show "\<exists>s c k. g = s @ number_to_string c \<and> no_digit_end s
                      \<and> idCounter ?b' s = Some k \<and> c \<le> k"
    proof
      assume "g = ?s @ number_to_string ?c"
      with nd cnt show ?thesis by auto
    next
      assume "g \<in> G"
      with acc obtain s c k where g: "g = s @ number_to_string c"
        "no_digit_end s" "idCounter b s = Some k" "c \<le> k"
        unfolding ids_accounted_def by blast
      show ?thesis
      proof (cases "s = ?s")
        case True
        with g(3,4) grow have "c \<le> ?c" by fastforce
        with g(1,2) True cnt show ?thesis by auto
      next
        case False
        with g cnt show ?thesis by auto
      qed
    qed
  qed
  have 3: "counters_positive ?b'"
    using pos next_counter_positive [of "idCounter b ?s"]
    by (auto simp: counters_positive_def cnt)
  from 1 2 3 nid show ?thesis by simp
qed

lemma process_all_Cons:
  "fst (process_all (pid # pids) b)
     = fst (process pid (JObj []) None b)
         # fst (process_all pids (fst (snd (process pid (JObj []) None b))))"
  "snd (process_all (pid # pids) b)
     = snd (process_all pids (fst (snd (process pid (JObj []) None b))))"
  by (simp_all split: prod.splits)

lemma process_all_new_ids:
  "\<forall>pid \<in> set pids. no_digit_end (stem_of pid) \<Longrightarrow> ids_accounted G b \<Longrightarrow>
   counters_positive b \<Longrightarrow>
     distinct (map node_id (fst (process_all pids b)))
     \<and> set (map node_id (fst (process_all pids b))) \<inter> G = {}"
proof (induction pids arbitrary: G b)
  case Nil
  show ?case by simp
next
  case (Cons pid pids)
  let ?r = "process pid (JObj []) None b"
  let ?n = "fst ?r" and ?b' = "fst (snd ?r)"
  from Cons.prems have nd: "no_digit_end (stem_of pid)"
    and rest: "\<forall>p \<in> set pids. no_digit_end (stem_of p)" by simp_all
  from process_new_id [OF nd Cons.prems(2,3), of "JObj []" None]
  have new: "node_id ?n \<notin> G" and acc: "ids_accounted (insert (node_id ?n) G) ?b'"
    and pos: "counters_positive ?b'" by simp_all
  from Cons.IH [OF rest acc pos]
  have ih: "distinct (map node_id (fst (process_all pids ?b')))"
    "set (map node_id (fst (process_all pids ?b'))) \<inter> insert (node_id ?n) G = {}"
    by simp_all
  from ih new show ?case unfolding process_all_Cons by auto
qed

text \<open>
  On a builder without id counters (as the constructor leaves it), the ids that a sequence
  of calls of \<open>process\<close> generates are pairwise distinct, provided that no operation name
  has a stem that ends in a digit.
\<close>

lemma process_all_ids_distinct:
  assumes "\<forall>pid \<in> set pids. no_digit_end (stem_of pid)" and "idCounter b = Map.empty"
  shows "distinct (map node_id (fst (process_all pids b)))"
proof -
  have "ids_accounted {} b" by (simp add: ids_accounted_def)
  moreover from assms(2) have "counters_positive b" by (simp add: counters_positive_def)
  ultimately show ?thesis using process_all_new_ids [OF assms(1)] by blast
qed

lemma set_AList_update:
  "x \<in> set (AList.update k v al) \<Longrightarrow> x = (k, v) \<or> x \<in> set al"
  by (induction al) (auto split: if_splits)

lemma process_keyed_by_id:
  assumes "keyed_by_id b"
  shows "keyed_by_id (fst (snd (process pid args d b)))"
  unfolding keyed_by_id_def
proof
  fix kn assume "kn \<in> set (nodes (fst (snd (process pid args d b))))"
  then have "kn = (node_id (fst (process pid args d b)), fst (process pid args d b))
             \<or> kn \<in> set (nodes b)"
    by (simp only: process_parts(3)) (rule set_AList_update)
  with assms show "node_id (snd kn) = fst kn" by (auto simp: keyed_by_id_def)
qed

text \<open>
  In every sequence of calls of \<open>process\<close>, every stored node is in the node map under
  its own id.
\<close>

lemma process_all_keyed_by_id:
  "keyed_by_id b \<Longrightarrow> keyed_by_id (snd (process_all pids b))"
proof (induction pids arbitrary: b)
  case Nil
  then show ?case by simp
next
  case (Cons pid pids)
  from Cons.IH [OF process_keyed_by_id [OF Cons.prems, of pid "JObj []" None]]
  show ?case unfolding process_all_Cons .
qed

subsection \<open>The constructor\<close>

lemma install_method_frame:
  "install_method e (b, out) = (b', out') \<Longrightarrow>
     nodes b' = nodes b \<and> idCounter b' = idCounter b
     \<and> callbackParameterCache b' = callbackParameterCache b
     \<and> processes b' = processes b \<and> parent b' = parent b
     \<and> parentNode b' = parentNode b \<and> parentParameter b' = parentParameter b"
  by (auto simp: install_method_def this_set_def split: if_splits)

lemma install_methods_frame:
  "install_methods es (b, out) = (b', out') \<Longrightarrow>
     nodes b' = nodes b \<and> idCounter b' = idCounter b
     \<and> callbackParameterCache b' = callbackParameterCache b
     \<and> processes b' = processes b \<and> parent b' = parent b
     \<and> parentNode b' = parentNode b \<and> parentParameter b' = parentParameter b"
proof (induction es arbitrary: b out)
  case Nil
  then show ?case by (simp add: install_methods_def)
next
  case (Cons e es)
  obtain b1 out1 where s: "install_method e (b, out) = (b1, out1)"
    by (cases "install_method e (b, out)")
  with Cons.prems have "install_methods es (b1, out1) = (b', out')"
    by (simp add: install_methods_def)
  from Cons.IH [OF this] install_method_frame [OF s] show ?case by simp
qed

lemma for_each_process_Inr:
  "(for_each_process es st = Inr r) = (None \<notin> set es \<and> r = install_methods (descriptors es) st)"
proof (induction es arbitrary: st)
  case Nil
  show ?case by (auto simp: install_methods_def)
next
  case (Cons x es)
  show ?case
  proof (cases x)
    case None
    then show ?thesis by simp
  next
    case (Some e)
    with Cons show ?thesis by (simp add: install_methods_def)
  qed
qed

lemma for_each_process_Inl:
  "(for_each_process es st = Inl err) = (err = TypeError \<and> None \<in> set es)"
proof (induction es arbitrary: st)
  case Nil
  show ?case by simp
next
  case (Cons x es)
  show ?case
  proof (cases x)
    case None
    then show ?thesis by auto
  next
    case (Some e)
    with Cons show ?thesis by simp
  qed
qed

lemma Builder_new_valid:
  "valid_processes procs \<Longrightarrow>
     Builder_new procs par idv
       = for_each_process (array_of procs) (init_builder (catalog_of procs) par idv, [])"
  by (auto simp: Builder_new_def valid_processes_def catalog_of_def array_of_def)

lemma Builder_new_invalid:
  "(Builder_new procs par idv = Inl InvalidProcesses) = (\<not> valid_processes procs)"
proof (cases "valid_processes procs")
  case True
  then show ?thesis by (simp add: Builder_new_valid for_each_process_Inl)
next
  case False
  then show ?thesis by (auto simp: Builder_new_def valid_processes_def)
qed

text \<open>
  The constructor throws a TypeError exactly when \<open>processes\<close> has one of the two
  accepted shapes and an element of the array is \<open>null\<close> or \<open>undefined\<close>.
\<close>

lemma Builder_new_TypeError:
  "(Builder_new procs par idv = Inl TypeError)
     = (valid_processes procs \<and> None \<in> set (array_of procs))"
proof (cases "valid_processes procs")
  case True
  then show ?thesis by (simp add: Builder_new_valid for_each_process_Inl)
next
  case False
  then show ?thesis by (auto simp: Builder_new_def valid_processes_def)
qed

text \<open>
  C9, as stated, fails. The array \<open>[null]\<close> is an array, and so is the field
  \<open>processes\<close> of \<open>{processes: [null]}\<close>, but constructing a Builder from either does
  not succeed: the loop over the array throws a TypeError.
\<close>

theorem Builder_new_null_element:
  "valid_processes (PArray [None])
   \<and> Builder_new (PArray [None]) None JUndefined = Inl TypeError
   \<and> valid_processes (PObject [(''processes'', PArray [None])])
   \<and> Builder_new (PObject [(''processes'', PArray [None])]) None JUndefined = Inl TypeError"
  by (simp add: valid_processes_def Builder_new_def)

text \<open>
  C9 (amended). Constructing a Builder gives the invalid-catalog error if and only if
  \<open>processes\<close> is neither an array nor an object whose field \<open>processes\<close> is an array.
  When \<open>processes\<close> has one of the two shapes and no element of the array is \<open>null\<close> or
  \<open>undefined\<close>, the construction succeeds, and the builder starts with an empty node map,
  no id counters and an empty cache of callback parameters (and with the catalog, the
  parent given, no parent node and no parent parameter).
\<close>

theorem Builder_new_validates:
  "(Builder_new procs par idv = Inl InvalidProcesses) = (\<not> valid_processes procs)
   \<and> (valid_processes procs \<and> None \<notin> set (array_of procs) \<longrightarrow>
        (\<exists>b out. Builder_new procs par idv = Inr (b, out)
           \<and> nodes b = [] \<and> idCounter b = Map.empty \<and> callbackParameterCache b = Map.empty
           \<and> processes b = catalog_of procs \<and> parent b = par
           \<and> parentNode b = None \<and> parentParameter b = None))
   \<and> valid_processes procs =
        (isArray procs \<or> (isObject procs \<and> isArray (field procs ''processes'')))"
proof -
  have 1: "(Builder_new procs par idv = Inl InvalidProcesses) = (\<not> valid_processes procs)"
    by (rule Builder_new_invalid)
  have 3: "valid_processes procs \<and> None \<notin> set (array_of procs) \<longrightarrow>
        (\<exists>b out. Builder_new procs par idv = Inr (b, out)
           \<and> nodes b = [] \<and> idCounter b = Map.empty \<and> callbackParameterCache b = Map.empty
           \<and> processes b = catalog_of procs \<and> parent b = par
           \<and> parentNode b = None \<and> parentParameter b = None)"
  proof
    assume v: "valid_processes procs \<and> None \<notin> set (array_of procs)"
    obtain b out where r: "install_methods (catalog_of procs) (init_builder (catalog_of procs) par idv, []) = (b, out)"
      by (cases "install_methods (catalog_of procs) (init_builder (catalog_of procs) par idv, [])")
    from v r have "Builder_new procs par idv = Inr (b, out)"
      by (simp add: Builder_new_valid for_each_process_Inr catalog_of_def)
    moreover from install_methods_frame [OF r]
    have "nodes b = [] \<and> idCounter b = Map.empty \<and> callbackParameterCache b = Map.empty
           \<and> processes b = catalog_of procs \<and> parent b = par
           \<and> parentNode b = None \<and> parentParameter b = None"
      by (simp add: init_builder_def)
    ultimately show "\<exists>b out. Builder_new procs par idv = Inr (b, out)
           \<and> nodes b = [] \<and> idCounter b = Map.empty \<and> callbackParameterCache b = Map.empty
           \<and> processes b = catalog_of procs \<and> parent b = par
           \<and> parentNode b = None \<and> parentParameter b = None"
      by blast
  qed
  have 4: "valid_processes procs =
        (isArray procs \<or> (isObject procs \<and> isArray (field procs ''processes'')))"
    by (simp add: valid_processes_def)
  show ?thesis using 1 3 4 by (intro conjI)
qed

theorem Builder_new_validates_witness:
  "valid_processes catalog_a_a1 \<and> None \<notin> set (array_of catalog_a_a1)
   \<and> valid_processes (PObject [(''processes'', catalog_a_a1), (''links'', PArray [])])
   \<and> None \<notin> set (array_of (PObject [(''processes'', catalog_a_a1), (''links'', PArray [])]))
   \<and> \<not> valid_processes (PObject [(''links'', PArray [])])
   \<and> \<not> valid_processes POther
   \<and> Builder_new POther None JUndefined = Inl InvalidProcesses
   \<and> Builder_new (PObject [(''links'', PArray [])]) None JUndefined = Inl InvalidProcesses
   \<and> (\<exists>b out. Builder_new catalog_a_a1 None JUndefined = Inr (b, out)
         \<and> nodes b = [] \<and> idCounter b = Map.empty \<and> callbackParameterCache b = Map.empty)
   \<and> (\<exists>b out. Builder_new (PObject [(''processes'', catalog_a_a1), (''links'', PArray [])]) None JUndefined = Inr (b, out)
         \<and> nodes b = [] \<and> idCounter b = Map.empty \<and> callbackParameterCache b = Map.empty)"
proof -
  have v: "valid_processes catalog_a_a1"
    "valid_processes (PObject [(''processes'', catalog_a_a1), (''links'', PArray [])])"
    "\<not> valid_processes (PObject [(''links'', PArray [])])"
    "\<not> valid_processes POther"
    by (simp_all add: valid_processes_def catalog_a_a1_def)
  have n: "None \<notin> set (array_of catalog_a_a1)"
    "None \<notin> set (array_of (PObject [(''processes'', catalog_a_a1), (''links'', PArray [])]))"
    by (simp_all add: array_of_def catalog_a_a1_def)
  show ?thesis
    using v n Builder_new_validates [of POther None JUndefined]
      Builder_new_validates [of "PObject [(''links'', PArray [])]" None JUndefined]
      Builder_new_validates [of catalog_a_a1 None JUndefined]
      Builder_new_validates [of "PObject [(''processes'', catalog_a_a1), (''links'', PArray [])]" None JUndefined]
    by blast
qed

lemma install_methods_append:
  "install_methods (xs @ ys) st = install_methods ys (install_methods xs st)"
  by (simp add: install_methods_def)

lemma install_methods_Cons:
  "install_methods (e # es) st = install_methods es (install_method e st)"
  by (simp add: install_methods_def)

lemma this_get_this_set_other:
  "k \<noteq> k' \<Longrightarrow> this_get (this_set k' v b) k = this_get b k"
  by (simp add: this_get_def this_set_def)

lemma this_get_this_set_same:
  "is_undefined (this_get b k) \<Longrightarrow> this_get (this_set k v b) k = v"
  by (auto simp: this_get_def this_set_def is_undefined_def split: if_splits)

lemma install_method_keeps:
  assumes "\<not> is_undefined (this_get b k)" and "install_method e (b, out) = (b', out')"
  shows "this_get b' k = this_get b k"
proof (cases "is_undefined (this_get b (entry_id e))")
  case True
  with assms(1) have "k \<noteq> entry_id e" by auto
  with True assms(2) show ?thesis
    by (auto simp: install_method_def this_get_this_set_other)
next
  case False
  with assms(2) show ?thesis by (simp add: install_method_def)
qed

lemma install_methods_keep:
  "\<not> is_undefined (this_get b k) \<Longrightarrow> install_methods es (b, out) = (b', out') \<Longrightarrow>
     this_get b' k = this_get b k"
proof (induction es arbitrary: b out)
  case Nil
  then show ?case by (simp add: install_methods_def)
next
  case (Cons e es)
  obtain b1 out1 where s: "install_method e (b, out) = (b1, out1)"
    by (cases "install_method e (b, out)")
  from install_method_keeps [OF Cons.prems(1) s] Cons.prems(1)
  have d: "\<not> is_undefined (this_get b1 k)" and eq: "this_get b1 k = this_get b k" by simp_all
  from Cons.prems(2) s have "install_methods es (b1, out1) = (b', out')"
    by (simp add: install_methods_Cons)
  from Cons.IH [OF d this] eq show ?case by simp
qed

lemma install_method_console:
  "install_method e (b, out) = (b', out') \<Longrightarrow> set out \<subseteq> set out'"
  by (auto simp: install_method_def split: if_splits)

lemma install_methods_console:
  "install_methods es (b, out) = (b', out') \<Longrightarrow> set out \<subseteq> set out'"
proof (induction es arbitrary: b out)
  case Nil
  then show ?case by (simp add: install_methods_def)
next
  case (Cons e es)
  obtain b1 out1 where s: "install_method e (b, out) = (b1, out1)"
    by (cases "install_method e (b, out)")
  from Cons.prems s have "install_methods es (b1, out1) = (b', out')"
    by (simp add: install_methods_Cons)
  from Cons.IH [OF this] install_method_console [OF s] show ?case by blast
qed

lemma Builder_new_Inr:
  assumes "Builder_new procs par idv = Inr r"
  shows "r = install_methods (catalog_of procs) (init_builder (catalog_of procs) par idv, [])"
proof -
  from assms Builder_new_invalid [of procs par idv] have "valid_processes procs" by auto
  with assms show ?thesis
    by (simp add: Builder_new_valid for_each_process_Inr catalog_of_def)
qed

lemma JMethod_defined: "\<not> is_undefined (JMethod k)"
  by (simp add: is_undefined_def)

text \<open>
  C10. Let the constructor succeed, and take any entry \<open>e\<close> of the catalog, with the
  entries \<open>xs\<close> before it; \<open>b1\<close> is the instance when the loop reaches \<open>e\<close>. If the
  id of \<open>e\<close> is not a member of \<open>b1\<close> (\<open>typeof\<close> gives \<open>undefined\<close>), the loop
  installs a method under that id, the finished builder still has it, and calling it with
  any argument list is \<open>process(id, [the arguments])\<close>. If the id is a member of \<open>b1\<close>, the
  round installs nothing and changes nothing on the instance, it prints the warning, and
  the finished builder has the member as it was.
\<close>

theorem constructor_installs_methods:
  assumes built: "Builder_new procs par idv = Inr (b, out)"
    and entry: "catalog_of procs = xs @ e # ys"
    and before: "install_methods xs (init_builder (catalog_of procs) par idv, []) = (b1, out1)"
  shows "(is_undefined (this_get b1 (entry_id e)) \<longrightarrow>
            install_method e (b1, out1) = (this_set (entry_id e) (JMethod (entry_id e)) b1, out1)
            \<and> this_get b (entry_id e) = JMethod (entry_id e)
            \<and> (\<forall>args. call_member (entry_id e) args b
                        = Some (process (entry_id e) (JArr args) None b)))
       \<and> (\<not> is_undefined (this_get b1 (entry_id e)) \<longrightarrow>
            install_method e (b1, out1) = (b1, out1 @ [cannot_create (entry_id e)])
            \<and> this_get b (entry_id e) = this_get b1 (entry_id e)
            \<and> cannot_create (entry_id e) \<in> set out)"
proof -
  obtain b2 out2 where step: "install_method e (b1, out1) = (b2, out2)"
    by (cases "install_method e (b1, out1)")
  from Builder_new_Inr [OF built] entry before step
  have rest: "install_methods ys (b2, out2) = (b, out)"
    by (simp add: install_methods_append install_methods_Cons)
  show ?thesis
  proof (cases "is_undefined (this_get b1 (entry_id e))")
    case True
    with step have s2: "b2 = this_set (entry_id e) (JMethod (entry_id e)) b1" "out2 = out1"
      by (simp_all add: install_method_def)
    from True s2 have g2: "this_get b2 (entry_id e) = JMethod (entry_id e)"
      by (simp add: this_get_this_set_same)
    then have "\<not> is_undefined (this_get b2 (entry_id e))" by (simp add: JMethod_defined)
    from install_methods_keep [OF this rest] g2
    have g: "this_get b (entry_id e) = JMethod (entry_id e)" by simp
    then have "\<forall>args. call_member (entry_id e) args b
                        = Some (process (entry_id e) (JArr args) None b)"
      by (simp add: call_member_def)
    with True g step s2 show ?thesis by simp
  next
    case False
    with step have s2: "b2 = b1" "out2 = out1 @ [cannot_create (entry_id e)]"
      by (simp_all add: install_method_def)
    from False s2 install_methods_keep [OF _ rest, of "entry_id e"]
    have g: "this_get b (entry_id e) = this_get b1 (entry_id e)" by simp
    from install_methods_console [OF rest] s2
    have "cannot_create (entry_id e) \<in> set out" by auto
    with False g step s2 show ?thesis by simp
  qed
qed

theorem constructor_installs_methods_witness:
  "case Builder_new catalog_add_process None JUndefined of
     Inl err \<Rightarrow> False
   | Inr (b, out) \<Rightarrow>
       this_get b ''add'' = JMethod ''add''
       \<and> call_member ''add'' [JNum 1] b = Some (process ''add'' (JArr [JNum 1]) None b)
       \<and> this_get b ''process'' = JNative ''process''
       \<and> cannot_create ''process'' \<in> set out"
proof -
  let ?init = "init_builder (catalog_of catalog_add_process) None JUndefined"
  obtain b out where r: "install_methods (catalog_of catalog_add_process) (?init, []) = (b, out)"
    by (cases "install_methods (catalog_of catalog_add_process) (?init, [])")
  have v: "valid_processes catalog_add_process"
    by (simp add: valid_processes_def catalog_add_process_def)
  have n: "None \<notin> set (array_of catalog_add_process)"
    by (simp add: array_of_def catalog_add_process_def)
  from v n r have built: "Builder_new catalog_add_process None JUndefined = Inr (b, out)"
    by (simp add: Builder_new_valid for_each_process_Inr catalog_of_def)
  have c0: "catalog_of catalog_add_process = [] @ entry_add # [entry_process, entry_add]"
    by (simp add: catalog_of_def array_of_def catalog_add_process_def)
  have b0: "install_methods [] (?init, []) = (?init, [])"
    by (simp add: install_methods_def)
  have u0: "is_undefined (this_get ?init (entry_id entry_add))"
    by (simp add: is_undefined_def this_get_def init_builder_def entry_add_def own_fields_def
        prototype_members_def)
  from constructor_installs_methods [OF built c0 b0] u0
  have A: "this_get b ''add'' = JMethod ''add''"
    "call_member ''add'' [JNum 1] b = Some (process ''add'' (JArr [JNum 1]) None b)"
    by (simp_all add: entry_add_def)
  have c1: "catalog_of catalog_add_process = [entry_add] @ entry_process # [entry_add]"
    by (simp add: catalog_of_def array_of_def catalog_add_process_def)
  have b1: "install_methods [entry_add] (?init, [])
              = (this_set ''add'' (JMethod ''add'') ?init, [])"
    using u0 by (simp add: install_methods_def install_method_def entry_add_def)
  have g1: "this_get (this_set ''add'' (JMethod ''add'') ?init) (entry_id entry_process)
              = JNative ''process''"
    by (simp add: this_get_def this_set_def init_builder_def entry_process_def own_fields_def
        prototype_members_def)
  then have d1: "\<not> is_undefined (this_get (this_set ''add'' (JMethod ''add'') ?init) (entry_id entry_process))"
    by (simp add: is_undefined_def)
  from constructor_installs_methods [OF built c1 b1] d1 g1
  have B: "this_get b ''process'' = JNative ''process''" "cannot_create ''process'' \<in> set out"
    by (simp_all add: entry_process_def)
  from built A B show ?thesis by simp
qed

subsection \<open>Callback parameters\<close>

lemma createCallbackParameter_cached:
  "callbackParameterCache (builders w this) name = Some p \<Longrightarrow>
     createCallbackParameter this name w = (Param p, w)"
  by (simp add: createCallbackParameter_def)

lemma createCallbackParameter_inherited:
  "callbackParameterCache (builders w this) name = None \<Longrightarrow>
   name \<in> set object_prototype_members \<Longrightarrow>
     createCallbackParameter this name w = (Inherited name, w)"
  by (simp add: createCallbackParameter_def)

lemma createCallbackParameter_new:
  "callbackParameterCache (builders w this) name = None \<Longrightarrow>
   name \<notin> set object_prototype_members \<Longrightarrow>
     createCallbackParameter this name w =
       (Param \<lparr>param_ident = next_ident w, param_name = name, param_builder = this\<rparr>,
        update_builder this
          (\<lambda>b. b\<lparr>callbackParameterCache := (callbackParameterCache b)(name \<mapsto>
                 \<lparr>param_ident = next_ident w, param_name = name, param_builder = this\<rparr>)\<rparr>)
          (w\<lparr>next_ident := Suc (next_ident w)\<rparr>))"
  by (simp add: createCallbackParameter_def Parameter_create_def)

text \<open>The names inherited from \<open>Object.prototype\<close> are members of every Builder as well.\<close>

lemma object_prototype_members_inherited:
  "set object_prototype_members \<subseteq> set prototype_members"
  by (simp add: object_prototype_members_def prototype_members_def)

text \<open>
  C7, at the failing input. On a builder that has nothing in its cache, the call of
  \<open>createCallbackParameter\<close> with the name \<open>constructor\<close> finds the member that the
  cache inherits from \<open>Object.prototype\<close>: it returns that member, not a Parameter
  object, it creates nothing (the store, with its count of allocations, is unchanged), and
  the cache has no entry of that name afterwards. A second call does the same.
\<close>

theorem createCallbackParameter_inherited_name:
  "callbackParameterCache (builders world0 0) ''constructor'' = None
   \<and> createCallbackParameter 0 ''constructor'' world0 = (Inherited ''constructor'', world0)
   \<and> callbackParameterCache
        (builders (snd (createCallbackParameter 0 ''constructor'' world0)) 0) ''constructor''
       = None
   \<and> next_ident (snd (createCallbackParameter 0 ''constructor'' world0)) = next_ident world0
   \<and> createCallbackParameter 0 ''constructor''
        (snd (createCallbackParameter 0 ''constructor'' world0))
       = (Inherited ''constructor'', world0)"
proof -
  have n: "callbackParameterCache (builders world0 0) ''constructor'' = None"
    by (simp add: world0_def fresh_def init_builder_def)
  have m: "''constructor'' \<in> set object_prototype_members"
    by (simp add: object_prototype_members_def)
  have r: "createCallbackParameter 0 ''constructor'' world0 = (Inherited ''constructor'', world0)"
    by (rule createCallbackParameter_inherited [OF n m])
  from n r show ?thesis by simp
qed

text \<open>
  What holds of \<open>createCallbackParameter\<close>. For every name, a second call with the same
  name returns what the first call returned and changes nothing. For a name that
  \<open>Object.prototype\<close> does not have, the value returned is a Parameter object, it is in
  the cache under its name after the first call, and the first call creates it (a new
  allocation, with that name and this builder) when the name was not cached; a cached
  object is returned as it is.
\<close>

lemma createCallbackParameter_same_object:
  "createCallbackParameter this name (snd (createCallbackParameter this name w))
     = createCallbackParameter this name w
   \<and> (name \<notin> set object_prototype_members \<longrightarrow>
        (\<exists>p. fst (createCallbackParameter this name w) = Param p
           \<and> callbackParameterCache (builders (snd (createCallbackParameter this name w)) this) name
               = Some p))
   \<and> (name \<notin> set object_prototype_members
        \<and> callbackParameterCache (builders w this) name = None \<longrightarrow>
        fst (createCallbackParameter this name w)
          = Param \<lparr>param_ident = next_ident w, param_name = name, param_builder = this\<rparr>
        \<and> next_ident (snd (createCallbackParameter this name w)) = Suc (next_ident w))
   \<and> (\<forall>p. callbackParameterCache (builders w this) name = Some p \<longrightarrow>
        createCallbackParameter this name w = (Param p, w))"
proof -
  let ?r = "createCallbackParameter this name w"
  have again: "createCallbackParameter this name (snd ?r) = ?r"
  proof (cases "callbackParameterCache (builders w this) name")
    case (Some p)
    then show ?thesis by (simp add: createCallbackParameter_cached)
  next
    case None
    show ?thesis
    proof (cases "name \<in> set object_prototype_members")
      case True
      with None show ?thesis by (simp add: createCallbackParameter_inherited)
    next
      case False
      from createCallbackParameter_new [OF None False]
      show ?thesis
        by (simp add: createCallbackParameter_cached update_builder_def)
    qed
  qed
  have cached: "name \<notin> set object_prototype_members \<longrightarrow>
        (\<exists>p. fst ?r = Param p \<and> callbackParameterCache (builders (snd ?r) this) name = Some p)"
    by (cases "callbackParameterCache (builders w this) name")
       (simp_all add: createCallbackParameter_new createCallbackParameter_cached
          update_builder_def)
  have new: "name \<notin> set object_prototype_members
        \<and> callbackParameterCache (builders w this) name = None \<longrightarrow>
        fst ?r = Param \<lparr>param_ident = next_ident w, param_name = name, param_builder = this\<rparr>
        \<and> next_ident (snd ?r) = Suc (next_ident w)"
    by (simp add: createCallbackParameter_new update_builder_def)
  have old: "\<forall>p. callbackParameterCache (builders w this) name = Some p \<longrightarrow> ?r = (Param p, w)"
    by (simp add: createCallbackParameter_cached)
  show ?thesis using again cached new old by (intro conjI)
qed

lemma createCallbackParameter_same_object_example:
  "''x'' \<notin> set object_prototype_members
   \<and> callbackParameterCache (builders world0 0) ''x'' = None
   \<and> fst (createCallbackParameter 0 ''x'' world0)
       = Param \<lparr>param_ident = 0, param_name = ''x'', param_builder = 0\<rparr>
   \<and> callbackParameterCache (builders (snd (createCallbackParameter 0 ''x'' world0)) 0) ''x''
       = Some \<lparr>param_ident = 0, param_name = ''x'', param_builder = 0\<rparr>
   \<and> fst (createCallbackParameter 0 ''x'' (snd (createCallbackParameter 0 ''x'' world0)))
       = Param \<lparr>param_ident = 0, param_name = ''x'', param_builder = 0\<rparr>"
proof -
  have m: "''x'' \<notin> set object_prototype_members"
    by (simp add: object_prototype_members_def)
  have n: "callbackParameterCache (builders world0 0) ''x'' = None"
    by (simp add: world0_def fresh_def init_builder_def)
  have i: "next_ident world0 = 0" by (simp add: world0_def)
  from createCallbackParameter_new [OF n m] i
  have r: "createCallbackParameter 0 ''x'' world0 =
      (Param \<lparr>param_ident = 0, param_name = ''x'', param_builder = 0\<rparr>,
       update_builder 0
          (\<lambda>b. b\<lparr>callbackParameterCache := (callbackParameterCache b)(''x'' \<mapsto>
                 \<lparr>param_ident = 0, param_name = ''x'', param_builder = 0\<rparr>)\<rparr>)
          (world0\<lparr>next_ident := Suc 0\<rparr>))"
    by simp
  have c: "callbackParameterCache (builders (snd (createCallbackParameter 0 ''x'' world0)) 0) ''x''
       = Some \<lparr>param_ident = 0, param_name = ''x'', param_builder = 0\<rparr>"
    unfolding r by (simp add: update_builder_def)
  from createCallbackParameter_cached [OF c]
  have "fst (createCallbackParameter 0 ''x'' (snd (createCallbackParameter 0 ''x'' world0)))
       = Param \<lparr>param_ident = 0, param_name = ''x'', param_builder = 0\<rparr>" by simp
  with m n c r show ?thesis by simp
qed

text \<open>Without the cache, two calls of \<open>Parameter.create\<close> give two objects.\<close>

lemma Parameter_create_twice_differ:
  "fst (Parameter_create this name (snd (Parameter_create this name w)))
     \<noteq> fst (Parameter_create this name w)"
  by (simp add: Parameter_create_def)

subsection \<open>getParentCallbackParameters\<close>

text \<open>
  C8. \<open>getParentCallbackParameters\<close> returns the empty list and changes nothing when the
  builder has no parent node or no parent parameter name (\<open>null\<close> or the empty string).
  When both are set and the lookup of the callback signature throws, it returns the empty
  list, the error is appended to the console, and nothing else changes. The function has
  no failing outcome.
\<close>

theorem getParentCallbackParameters_empty:
  "(parentNode (builders w this) = None \<or> parentParameter (builders w this) = None
      \<or> parentParameter (builders w this) = Some [] \<longrightarrow>
      getParentCallbackParameters lookup this w = ([], w))
   \<and> (\<forall>pn pp err.
        parentNode (builders w this) = Some pn \<and> parentParameter (builders w this) = Some pp
        \<and> pp \<noteq> [] \<and> lookup (node_spec pn) pp = Inl err \<longrightarrow>
        getParentCallbackParameters lookup this w = ([], w\<lparr>console := console w @ [err]\<rparr>))"
  by (auto simp: getParentCallbackParameters_def split: option.splits)

theorem getParentCallbackParameters_empty_witness:
  "parentNode (builders world0 0) = None
   \<and> getParentCallbackParameters lookup_x 0 world0 = ([], world0)
   \<and> parentNode (builders world0 1) = Some node_apply
   \<and> parentParameter (builders world0 1) = Some ''process''
   \<and> lookup_fails (node_spec node_apply) ''process''
        = Inl ''Multiple schemas with different callback parameters found.''
   \<and> getParentCallbackParameters lookup_fails 1 world0
        = ([], world0\<lparr>console := [''Multiple schemas with different callback parameters found.'']\<rparr>)"
proof -
  have r: "parentNode (builders world0 0) = None"
    by (simp add: world0_def fresh_def init_builder_def)
  have n: "parentNode (builders world0 1) = Some node_apply"
    "parentParameter (builders world0 1) = Some ''process''"
    by (simp_all add: world0_def nested_def setParent_def)
  have l: "lookup_fails (node_spec node_apply) ''process''
        = Inl ''Multiple schemas with different callback parameters found.''"
    by (simp add: lookup_fails_def)
  have c: "console world0 = []" by (simp add: world0_def)
  from getParentCallbackParameters_empty [of world0 0 lookup_x] r
  have A: "getParentCallbackParameters lookup_x 0 world0 = ([], world0)" by simp
  from getParentCallbackParameters_empty [of world0 1 lookup_fails] n l c
  have B: "getParentCallbackParameters lookup_fails 1 world0
        = ([], world0\<lparr>console := [''Multiple schemas with different callback parameters found.'']\<rparr>)"
    by simp
  from r n l A B show ?thesis by simp
qed

subsection \<open>addParameter for a callback parameter\<close>

lemma strict_eq_JStr: "strict_eq v (JStr n) = (v = JStr n)"
  by (cases v) simp_all













subsection \<open>addParameter at the root\<close>

lemma named_JObj: "named n (JObj obj) = (name_of obj = JStr n)"
  by (simp add: named_def)

lemma findIndex_name_objects:
  "list_all is_object ps \<Longrightarrow>
     (filter (named n) ps = [] \<longrightarrow> findIndex_name (JStr n) ps = Inr None)
     \<and> (filter (named n) ps \<noteq> [] \<longrightarrow>
          (\<exists>i. findIndex_name (JStr n) ps = Inr (Some i) \<and> i < length ps \<and> named n (ps ! i)))"
proof (induction ps)
  case Nil
  show ?case by simp
next
  case (Cons p ps)
  from Cons.prems obtain obj where p: "p = JObj obj" by (cases p) simp_all
  from Cons.prems have rest: "list_all is_object ps" by simp
  show ?case
  proof (cases "name_of obj = JStr n")
    case True
    with p show ?thesis by (simp add: strict_eq_JStr named_JObj)
  next
    case False
    show ?thesis
    proof (cases "filter (named n) ps = []")
      case True
      with Cons.IH [OF rest] False p show ?thesis by (simp add: strict_eq_JStr named_JObj)
    next
      case ne: False
      with Cons.IH [OF rest] obtain i where
        "findIndex_name (JStr n) ps = Inr (Some i)" "i < length ps" "named n (ps ! i)" by blast
      with False p ne show ?thesis by (simp add: strict_eq_JStr named_JObj)
    qed
  qed
qed

lemma filter_unique_update:
  "distinct (map f ps) \<Longrightarrow> i < length ps \<Longrightarrow> f (ps ! i) = c \<Longrightarrow> f v = c \<Longrightarrow>
     filter (\<lambda>x. f x = c) (ps[i := v]) = [v]"
proof (induction ps arbitrary: i)
  case Nil
  then show ?case by simp
next
  case (Cons p ps)
  show ?case
  proof (cases i)
    case 0
    with Cons.prems have "c \<notin> f ` set ps" by auto
    then have "filter (\<lambda>x. f x = c) ps = []" by (auto simp: filter_empty_conv)
    with 0 Cons.prems show ?thesis by simp
  next
    case (Suc j)
    with Cons.prems have j: "j < length ps" "f (ps ! j) = c" by simp_all
    then have "c \<in> f ` set ps" by (metis imageI nth_mem)
    with Cons.prems have "f p \<noteq> c" by auto
    moreover from Cons.IH [OF _ j Cons.prems(4)] Cons.prems(1)
    have "filter (\<lambda>x. f x = c) (ps[j := v]) = [v]" by simp
    ultimately show ?thesis using Suc by simp
  qed
qed

lemma filter_unique:
  "distinct (map f ps) \<Longrightarrow> i < length ps \<Longrightarrow> f (ps ! i) = c \<Longrightarrow>
     filter (\<lambda>x. f x = c) ps = [ps ! i]"
  using filter_unique_update [of f ps i c "ps ! i"] by simp

lemma map_add_upd_left:
  "k \<notin> dom n \<Longrightarrow> (m(k \<mapsto> v)) ++ n = m ++ n(k \<mapsto> v)"
  by (rule ext) (auto simp: map_add_def split: option.splits)

lemma map_of_assign_obj:
  "distinct (map fst source) \<Longrightarrow>
     map_of (assign_obj target source) = map_of target ++ map_of source"
proof (induction source arbitrary: target)
  case Nil
  show ?case by (simp add: assign_obj_def)
next
  case (Cons kv source)
  obtain k v where kv: "kv = (k, v)" by (cases kv)
  from Cons.prems kv have k: "k \<notin> dom (map_of source)" and d: "distinct (map fst source)"
    by (auto simp: dom_map_of_conv_image_fst)
  have "map_of (assign_obj target (kv # source))
          = map_of (assign_obj (AList.update k v target) source)"
    by (simp add: assign_obj_def kv)
  also have "\<dots> = map_of (AList.update k v target) ++ map_of source"
    by (rule Cons.IH [OF d])
  also have "\<dots> = (map_of target)(k \<mapsto> v) ++ map_of source"
    by (simp only: AList.update_conv')
  also have "\<dots> = map_of target ++ (map_of source)(k \<mapsto> v)"
    by (rule map_add_upd_left [OF k])
  also have "\<dots> = map_of target ++ map_of (kv # source)"
    by (simp only: kv map_of.simps fst_conv snd_conv)
  finally show ?case .
qed

lemma assign_obj_empty:
  "distinct (map fst source) \<Longrightarrow> map_of (assign_obj [] source) = map_of source"
  by (simp add: map_of_assign_obj)

lemma name_of_assign_obj:
  "distinct (map fst source) \<Longrightarrow> name_of source = JStr n \<Longrightarrow>
     name_of (assign_obj target source) = JStr n"
proof -
  assume d: "distinct (map fst source)" and n: "name_of source = JStr n"
  from n have "map_of source ''name'' = Some (JStr n)"
    by (cases "map_of source ''name''") (simp_all add: name_of_def)
  then have "(map_of target ++ map_of source) ''name'' = Some (JStr n)"
    by (rule map_add_find_right)
  then show ?thesis by (simp add: name_of_def map_of_assign_obj [OF d])
qed

lemma parameters_of_this_set:
  "parameters_of (this_set ''parameters'' (JArr ps) b) = Some ps"
  by (simp add: parameters_of_def this_get_def this_set_def own_fields_def)

lemma declared_list_this_set:
  "declared_list (this_set ''parameters'' (JArr ps) b) = ps"
  by (simp add: declared_list_def parameters_of_this_set)

lemma element_name_named: "named n x \<Longrightarrow> element_name x = Inr (JStr n)"
  by (simp add: named_def)

lemma declare_in_step:
  assumes ok: "declarations_ok b"
    and nm: "name_of p = JStr n"
    and dp: "distinct (map fst p)"
  shows "\<exists>b' obj. declare_in p b = Inr b'
           \<and> declarations_ok b'
           \<and> declared n b' = [JObj obj]
           \<and> map_of obj = fields_of (declared n b) ++ map_of p
           \<and> b' = this_set ''parameters'' (JArr (declared_list b')) b"
proof -
  let ?ps = "declared_list b"
  from ok have objs: "list_all is_object ?ps" and dist: "distinct (map element_name ?ps)"
    by (simp_all add: declarations_ok_def)
  have nmd: "named n = (\<lambda>x. element_name x = Inr (JStr n))"
    by (rule ext) (simp add: named_def)
  show ?thesis
  proof (cases "filter (named n) ?ps = []")
    case True
    with findIndex_name_objects [OF objs, of n]
    have "findIndex_name (JStr n) ?ps = Inr None" by simp
    then have d: "declare_in p b = Inr (this_set ''parameters'' (JArr (?ps @ [JObj p])) b)"
      by (simp add: declare_in_def nm declared_list_def)
    let ?b' = "this_set ''parameters'' (JArr (?ps @ [JObj p])) b"
    have l: "declared_list ?b' = ?ps @ [JObj p]" by (rule declared_list_this_set)
    from True have "Inr (JStr n) \<notin> set (map element_name ?ps)"
      by (auto simp: filter_empty_conv named_def)
    with dist objs have ok': "declarations_ok ?b'"
      by (simp add: declarations_ok_def l nm)
    have dn: "declared n ?b' = [JObj p]"
      using True by (simp add: declared_def l named_JObj nm)
    have f: "map_of p = fields_of (declared n b) ++ map_of p"
      using True by (simp add: declared_def fields_of_def)
    from d ok' dn f l show ?thesis by auto
  next
    case False
    with findIndex_name_objects [OF objs, of n] obtain i where
      i: "findIndex_name (JStr n) ?ps = Inr (Some i)" "i < length ?ps" "named n (?ps ! i)"
      by blast
    from objs i(2) have "is_object (?ps ! i)" by (simp add: list_all_length)
    then obtain obj where obj: "?ps ! i = JObj obj" by (cases "?ps ! i") simp_all
    let ?new = "JObj (assign_obj obj p)"
    let ?b' = "this_set ''parameters'' (JArr (?ps[i := ?new])) b"
    from i(1) obj have d: "declare_in p b = Inr ?b'"
      by (simp add: declare_in_def nm declared_list_def)
    have l: "declared_list ?b' = ?ps[i := ?new]" by (rule declared_list_this_set)
    have en: "element_name ?new = Inr (JStr n)"
      by (simp add: name_of_assign_obj [OF dp nm])
    from i(3) have eo: "element_name (?ps ! i) = Inr (JStr n)" by (rule element_name_named)
    have "map element_name (?ps[i := ?new]) = map element_name ?ps"
      using en eo by (simp add: map_update list_update_same_conv i(2))
    with dist have dist': "distinct (map element_name (?ps[i := ?new]))" by simp
    have objs': "list_all is_object (?ps[i := ?new])"
      using objs by (auto simp: list_all_iff dest: set_update_subset_insert [THEN subsetD])
    from dist' objs' have ok': "declarations_ok ?b'" by (simp add: declarations_ok_def l)
    have dn: "declared n ?b' = [?new]"
      using filter_unique_update [OF dist i(2) eo en] by (simp add: declared_def l nmd)
    have "declared n b = [JObj obj]"
      using filter_unique [OF dist i(2) eo] obj by (simp add: declared_def nmd)
    then have f: "map_of (assign_obj obj p) = fields_of (declared n b) ++ map_of p"
      by (simp add: fields_of_def map_of_assign_obj [OF dp])
    from d ok' dn f l show ?thesis by auto
  qed
qed

lemma root_of_root: "parent (h a) = None \<Longrightarrow> root_of h a = Some a"
  by (subst root_of.simps) simp

lemma addParameter_at_root:
  assumes "parent (builders w r) = None" and "parentNode (builders w r) = None"
  shows "addParameter lookup r p flag w =
           (case declare_in p (builders w r) of
              Inl e \<Rightarrow> Some (Inl e)
            | Inr b' \<Rightarrow> Some (Inr (update_builder r (\<lambda>_. b') w)))"
proof -
  from assms(2) have g: "getParentCallbackParameters lookup r w = ([], w)"
    by (simp add: getParentCallbackParameters_def)
  from assms(1) have "root_of (builders w) r = Some r" by (rule root_of_root)
  then have "(if flag then root_of (builders w) r else Some r) = Some r" by simp
  with g show ?thesis by (simp add: addParameter_def)
qed

lemma this_set_frame:
  "parent (this_set k v b) = parent b" "parentNode (this_set k v b) = parentNode b"
  by (simp_all add: this_set_def)

lemma fields_of_single: "fields_of [JObj obj] = map_of obj"
  by (simp add: fields_of_def)

lemma fields_of_Nil: "fields_of [] = Map.empty"
  by (simp add: fields_of_def)

text \<open>
  C5. Take a root builder (no parent, no parent node) whose declared-parameter list is as
  \<open>addParameter\<close> maintains it, and two parameter objects with the same name \<open>n\<close>.
  Two calls of \<open>addParameter\<close> on that builder, one with each, both succeed, and
  afterwards the declared-parameter list has exactly one entry of the name \<open>n\<close>. Its
  fields are those of the entry of that name declared before the two calls (none, when
  the name was not declared), overwritten by the fields of the first parameter and then
  by the fields of the second: when the name was not declared before, they are the merge
  of the two descriptors in which the later call wins on shared keys.
\<close>

theorem addParameter_twice_merges:
  assumes root: "parent (builders w r) = None" "parentNode (builders w r) = None"
    and ok: "declarations_ok (builders w r)"
    and n1: "name_of p1 = JStr n" and n2: "name_of p2 = JStr n"
    and d1: "distinct (map fst p1)" and d2: "distinct (map fst p2)"
  shows "\<exists>w1 w2 obj.
           addParameter lookup r p1 flag1 w = Some (Inr w1)
         \<and> addParameter lookup r p2 flag2 w1 = Some (Inr w2)
         \<and> declared n (builders w2 r) = [JObj obj]
         \<and> map_of obj = fields_of (declared n (builders w r)) ++ map_of p1 ++ map_of p2
         \<and> (declared n (builders w r) = [] \<longrightarrow> map_of obj = map_of p1 ++ map_of p2)
         \<and> declarations_ok (builders w2 r)"
proof -
  from declare_in_step [OF ok n1 d1] obtain b1 obj1 where
    s1: "declare_in p1 (builders w r) = Inr b1" "declarations_ok b1"
      "declared n b1 = [JObj obj1]"
      "map_of obj1 = fields_of (declared n (builders w r)) ++ map_of p1"
      "b1 = this_set ''parameters'' (JArr (declared_list b1)) (builders w r)"
    by blast
  let ?w1 = "update_builder r (\<lambda>_. b1) w"
  have a1: "addParameter lookup r p1 flag1 w = Some (Inr ?w1)"
    using addParameter_at_root [OF root] s1(1) by simp
  have at1: "builders ?w1 r = b1" by (simp add: update_builder_def)
  from s1(5) root have root1: "parent (builders ?w1 r) = None" "parentNode (builders ?w1 r) = None"
    by (simp_all add: at1) (metis this_set_frame)+
  from declare_in_step [OF s1(2) n2 d2] obtain b2 obj2 where
    s2: "declare_in p2 b1 = Inr b2" "declarations_ok b2"
      "declared n b2 = [JObj obj2]"
      "map_of obj2 = fields_of (declared n b1) ++ map_of p2"
    by blast
  let ?w2 = "update_builder r (\<lambda>_. b2) ?w1"
  have a2: "addParameter lookup r p2 flag2 ?w1 = Some (Inr ?w2)"
    using addParameter_at_root [OF root1] s2(1) by (simp add: at1)
  have at2: "builders ?w2 r = b2" by (simp add: update_builder_def)
  from s2(4) s1(3,4) have m: "map_of obj2
      = fields_of (declared n (builders w r)) ++ map_of p1 ++ map_of p2"
    by (simp add: fields_of_single)
  then have e: "declared n (builders w r) = [] \<longrightarrow> map_of obj2 = map_of p1 ++ map_of p2"
    by (simp add: fields_of_Nil)
  from a1 a2 s2(2,3) m e at2 show ?thesis by auto
qed

lemma fresh_declarations_ok: "declarations_ok fresh"
  by (simp add: declarations_ok_def declared_list_def parameters_of_def this_get_def fresh_def
      init_builder_def own_fields_def prototype_members_def)

theorem addParameter_twice_merges_witness:
  "parent (builders world0 0) = None \<and> parentNode (builders world0 0) = None
   \<and> declarations_ok (builders world0 0)
   \<and> name_of param_first = JStr ''x'' \<and> name_of param_second = JStr ''x''
   \<and> distinct (map fst param_first) \<and> distinct (map fst param_second)
   \<and> declared ''x'' (builders world0 0) = []
   \<and> (\<exists>w1 w2 obj.
         addParameter lookup_x 0 param_first True world0 = Some (Inr w1)
       \<and> addParameter lookup_x 0 param_second True w1 = Some (Inr w2)
       \<and> declared ''x'' (builders w2 0) = [JObj obj]
       \<and> map_of obj ''name'' = Some (JStr ''x'')
       \<and> map_of obj ''description'' = Some (JStr ''second'')
       \<and> map_of obj ''optional'' = Some (JBool True)
       \<and> map_of obj ''default'' = Some (JNum 1))"
proof -
  have b: "builders world0 0 = fresh" by (simp add: world0_def)
  have r: "parent (builders world0 0) = None" "parentNode (builders world0 0) = None"
    by (simp_all add: b fresh_def init_builder_def)
  have ok: "declarations_ok (builders world0 0)" by (simp add: b fresh_declarations_ok)
  have n: "name_of param_first = JStr ''x''" "name_of param_second = JStr ''x''"
    by (simp_all add: name_of_def param_first_def param_second_def)
  have d: "distinct (map fst param_first)" "distinct (map fst param_second)"
    by (simp_all add: param_first_def param_second_def)
  have e: "declared ''x'' (builders world0 0) = []"
    by (simp add: b declared_def declared_list_def parameters_of_def this_get_def fresh_def
      init_builder_def own_fields_def prototype_members_def)
  from addParameter_twice_merges [OF r ok n d, of lookup_x True True] e
  obtain w1 w2 obj where
    res: "addParameter lookup_x 0 param_first True world0 = Some (Inr w1)"
      "addParameter lookup_x 0 param_second True w1 = Some (Inr w2)"
      "declared ''x'' (builders w2 0) = [JObj obj]"
      "map_of obj = map_of param_first ++ map_of param_second"
    by auto
  from res(4) have f: "map_of obj ''name'' = Some (JStr ''x'')"
    "map_of obj ''description'' = Some (JStr ''second'')"
    "map_of obj ''optional'' = Some (JBool True)"
    "map_of obj ''default'' = Some (JNum 1)"
    by (simp_all add: param_first_def param_second_def map_add_def)
  from r ok n d e res(1-3) f show ?thesis by blast
qed

lemma this_get_parameters:
  "this_get b ''parameters'' = (case props b ''parameters'' of Some v \<Rightarrow> v | None \<Rightarrow> JUndefined)"
  by (simp add: this_get_def own_fields_def prototype_members_def split: option.split)

lemma install_method_no_parameters:
  assumes "parameters_of b = None" and "install_method e (b, out) = (b', out')"
  shows "parameters_of b' = None"
proof (cases "is_undefined (this_get b (entry_id e))")
  case True
  with assms(2) have b': "b' = this_set (entry_id e) (JMethod (entry_id e)) b"
    by (simp add: install_method_def)
  show ?thesis
  proof (cases "entry_id e = ''parameters''")
    case True
    with b' show ?thesis
      by (simp add: parameters_of_def this_get_parameters this_set_def)
  next
    case False
    then have "this_get b' ''parameters'' = this_get b ''parameters''"
      unfolding b' by (simp add: this_get_this_set_other)
    with assms(1) show ?thesis by (simp add: parameters_of_def)
  qed
next
  case False
  with assms show ?thesis by (simp add: install_method_def)
qed

lemma install_methods_no_parameters:
  "parameters_of b = None \<Longrightarrow> install_methods es (b, out) = (b', out') \<Longrightarrow>
     parameters_of b' = None"
proof (induction es arbitrary: b out)
  case Nil
  then show ?case by (simp add: install_methods_def)
next
  case (Cons e es)
  obtain b1 out1 where s: "install_method e (b, out) = (b1, out1)"
    by (cases "install_method e (b, out)")
  from Cons.prems(2) s have "install_methods es (b1, out1) = (b', out')"
    by (simp add: install_methods_Cons)
  from Cons.IH [OF install_method_no_parameters [OF Cons.prems(1) s] this] show ?case .
qed

text \<open>A builder just constructed has no declared parameters.\<close>

lemma Builder_new_declarations_ok:
  assumes "Builder_new procs par idv = Inr (b, out)"
  shows "declared_list b = [] \<and> declarations_ok b"
proof -
  have "parameters_of (init_builder (catalog_of procs) par idv) = None"
    by (simp add: parameters_of_def this_get_parameters init_builder_def)
  moreover from Builder_new_Inr [OF assms]
  have "install_methods (catalog_of procs) (init_builder (catalog_of procs) par idv, []) = (b, out)"
    by simp
  ultimately have "parameters_of b = None" by (rule install_methods_no_parameters)
  then show ?thesis by (simp add: declarations_ok_def declared_list_def)
qed

end
